theory Spec2Isabelle
  imports Complex_Main "HOL-Library.Sublist"
begin

section \<open>Strings\<close>

text \<open>
  A JavaScript string is a sequence of UTF-16 code units. A code unit is modelled as a
  natural number (every theorem below holds for all of them, so also for those below
  65536), and \<open>str\<close> turns an ASCII literal into such a sequence.
\<close>

type_synonym code_unit = nat
type_synonym jsstring = "code_unit list"

definition str :: "string \<Rightarrow> jsstring" where
  "str s = map of_char s"

abbreviation NEWLINE :: code_unit where "NEWLINE \<equiv> 10"
abbreviation SPACE :: code_unit where "SPACE \<equiv> 32"
abbreviation QUOTE :: code_unit where "QUOTE \<equiv> 34"
abbreviation APOSTROPHE :: code_unit where "APOSTROPHE \<equiv> 39"
abbreviation ASTERISK :: code_unit where "ASTERISK \<equiv> 42"
abbreviation PLUS :: code_unit where "PLUS \<equiv> 43"
abbreviation HYPHEN :: code_unit where "HYPHEN \<equiv> 45"
abbreviation DOT :: code_unit where "DOT \<equiv> 46"
abbreviation LESS_THAN :: code_unit where "LESS_THAN \<equiv> 60"
abbreviation GREATER_THAN :: code_unit where "GREATER_THAN \<equiv> 62"
abbreviation BACKTICK :: code_unit where "BACKTICK \<equiv> 96"

text \<open>
  The class \<^verbatim>\<open>\s\<close> of a regular expression, which is also what
  \<^verbatim>\<open>String.prototype.trim\<close> removes: tab, line feed, vertical tab, form feed,
  carriage return, space, no-break space, U+1680, U+2000 to U+200A, U+2028, U+2029,
  U+202F, U+205F, U+3000 and U+FEFF.
\<close>

definition is_space :: "code_unit \<Rightarrow> bool" where
  "is_space c \<longleftrightarrow>
     c \<in> {9, 10, 11, 12, 13, 32, 160, 5760, 8232, 8233, 8239, 8287, 12288, 65279}
     \<or> (8192 \<le> c \<and> c \<le> 8202)"

text \<open>
  The line terminators: \<^verbatim>\<open>.\<close> does not match them, and with the flag
  \<^verbatim>\<open>m\<close> the anchor \<^verbatim>\<open>^\<close> matches right after one.
\<close>

definition is_line_terminator :: "code_unit \<Rightarrow> bool" where
  "is_line_terminator c \<longleftrightarrow> c \<in> {10, 13, 8232, 8233}"

definition is_digit :: "code_unit \<Rightarrow> bool" where
  "is_digit c \<longleftrightarrow> 48 \<le> c \<and> c \<le> 57"

text \<open>\<^verbatim>\<open>s.trim()\<close>\<close>

definition trim :: "jsstring \<Rightarrow> jsstring" where
  "trim s = rev (dropWhile is_space (rev (dropWhile is_space s)))"

text \<open>
  \<^verbatim>\<open>s.replace(/c/g, '')\<close> for a single character \<open>c\<close>
  (\<^verbatim>\<open>/\*/g\<close> and the backtick).
\<close>

definition remove_all :: "code_unit \<Rightarrow> jsstring \<Rightarrow> jsstring" where
  "remove_all c s = filter (\<lambda>x. x \<noteq> c) s"

text \<open>
  \<^verbatim>\<open>s.replace(/\*\*/g, '')\<close>: the pairs of asterisks, found from left to right
  without overlap.
\<close>

fun remove_double_asterisks :: "jsstring \<Rightarrow> jsstring" where
  "remove_double_asterisks (a # b # cs) =
     (if a = ASTERISK \<and> b = ASTERISK then remove_double_asterisks cs
      else a # remove_double_asterisks (b # cs))"
| "remove_double_asterisks cs = cs"

section \<open>The text passed to speech synthesis (second variant)\<close>

text \<open>
  \<^verbatim>\<open>s.replace(/<[^>]*>/g, '')\<close>: at a \<^verbatim>\<open><\<close> with a \<^verbatim>\<open>>\<close>
  somewhere after it, everything up to the first such \<^verbatim>\<open>>\<close> is removed (the
  class \<^verbatim>\<open>[^>]\<close> also matches line terminators); a \<^verbatim>\<open><\<close> with no
  \<^verbatim>\<open>>\<close> after it stays.
\<close>

function strip_tags :: "jsstring \<Rightarrow> jsstring" where
  "strip_tags [] = []"
| "strip_tags (c # cs) =
     (if c = LESS_THAN \<and> GREATER_THAN \<in> set cs
      then strip_tags (tl (dropWhile (\<lambda>x. x \<noteq> GREATER_THAN) cs))
      else c # strip_tags cs)"
  by pat_completeness auto
termination
proof (relation "measure length")
  show "wf (measure length)" by simp
next
  fix c :: code_unit and cs :: jsstring
  have "length (tl (dropWhile (\<lambda>x. x \<noteq> GREATER_THAN) cs)) \<le> length cs"
    using length_dropWhile_le [of "\<lambda>x. x \<noteq> GREATER_THAN" cs] by simp
  then show "(tl (dropWhile (\<lambda>x. x \<noteq> GREATER_THAN) cs), c # cs) \<in> measure length"
    by simp
next
  fix c :: code_unit and cs :: jsstring
  show "(cs, c # cs) \<in> measure length" by simp
qed

text \<open>\<^verbatim>\<open>s.replace(/\n/g, ' ')\<close>\<close>

definition newlines_to_spaces :: "jsstring \<Rightarrow> jsstring" where
  "newlines_to_spaces s = map (\<lambda>x. if x = NEWLINE then SPACE else x) s"

text \<open>\<^verbatim>\<open>s.replace(/\s+/g, ' ')\<close>: every maximal run of white space becomes one space.\<close>

function collapse_spaces :: "jsstring \<Rightarrow> jsstring" where
  "collapse_spaces [] = []"
| "collapse_spaces (c # cs) =
     (if is_space c then SPACE # collapse_spaces (dropWhile is_space cs)
      else c # collapse_spaces cs)"
  by pat_completeness auto
termination
proof (relation "measure length")
  show "wf (measure length)" by simp
next
  fix c :: code_unit and cs :: jsstring
  show "(dropWhile is_space cs, c # cs) \<in> measure length"
    using length_dropWhile_le [of is_space cs] by simp
next
  fix c :: code_unit and cs :: jsstring
  show "(cs, c # cs) \<in> measure length" by simp
qed

text \<open>
  \<open>cleanText\<close> of \<open>speak\<close> (second variant):
  \<^verbatim>\<open>
  const cleanText = text
    .replace(/<[^>]*>/g, '') // Remove HTML tags
    .replace(/\*\*/g, '') // Remove asterisks
    .replace(/\*/g, '') // Remove single asterisks
    .replace(/`/g, '') // Remove backticks
    .replace(/\n/g, ' ') // Replace newlines with spaces
    .replace(/\s+/g, ' ') // Replace multiple spaces with single space
    .trim();
  \<close>
\<close>

definition cleanText :: "jsstring \<Rightarrow> jsstring" where
  "cleanText text' =
     trim (collapse_spaces (newlines_to_spaces (remove_all BACKTICK (remove_all ASTERISK
       (remove_double_asterisks (strip_tags text'))))))"

section \<open>The display transform (second variant)\<close>

text \<open>
  The lazy group \<^verbatim>\<open>(.*?)\<close> followed by the closing delimiter \<open>d\<close>: the
  shortest run of characters other than line terminators after which \<open>d\<close> stands.
  The result is the captured text and what follows the delimiter; \<open>None\<close> when a line
  terminator or the end of the string comes first.
\<close>

fun lazy_until :: "jsstring \<Rightarrow> jsstring \<Rightarrow> (jsstring \<times> jsstring) option" where
  "lazy_until d [] = None"
| "lazy_until d (c # cs) =
     (if prefix d (c # cs) then Some ([], drop (length d) (c # cs))
      else if is_line_terminator c then None
      else (case lazy_until d cs of
              None \<Rightarrow> None
            | Some (captured, rest) \<Rightarrow> Some (c # captured, rest)))"

text \<open>
  \<^verbatim>\<open>s.replace(/d(.*?)d/g, open_tag + '$1' + close_tag)\<close> for a delimiter \<open>d\<close>:
  matches are looked for from left to right; where none starts, the character is kept
  and the search goes on one character further.
\<close>

function replace_delimited :: "jsstring \<Rightarrow> jsstring \<Rightarrow> jsstring \<Rightarrow> jsstring \<Rightarrow> jsstring" where
  "replace_delimited d open_tag close_tag [] = []"
| "replace_delimited d open_tag close_tag (c # cs) =
     (case (if d \<noteq> [] \<and> prefix d (c # cs)
            then lazy_until d (drop (length d) (c # cs)) else None) of
        Some (captured, rest) \<Rightarrow>
          open_tag @ captured @ close_tag @ replace_delimited d open_tag close_tag rest
      | None \<Rightarrow> c # replace_delimited d open_tag close_tag cs)"
  by pat_completeness auto
termination
proof (relation "measure (\<lambda>(d, open_tag, close_tag, s). length s)")
  show "wf (measure (\<lambda>(d :: jsstring, open_tag :: jsstring, close_tag :: jsstring,
                        s :: jsstring). length s))"
    by simp
next
  fix d open_tag close_tag :: jsstring and c :: code_unit and cs :: jsstring
  show "((d, open_tag, close_tag, cs), (d, open_tag, close_tag, c # cs))
          \<in> measure (\<lambda>(d, open_tag, close_tag, s). length s)"
    by simp
next
  fix d open_tag close_tag :: jsstring and c :: code_unit and cs :: jsstring
    and x2 :: "jsstring \<times> jsstring" and captured rest :: jsstring
  assume m: "(if d \<noteq> [] \<and> prefix d (c # cs)
              then lazy_until d (drop (length d) (c # cs)) else None) = Some x2"
    and x2: "(captured, rest) = x2"
  have shorter: "length r \<le> length s" if "lazy_until d s = Some (k, r)" for s k r
    using that
  proof (induction s arbitrary: k)
    case Nil
    then show ?case by simp
  next
    case (Cons a s)
    then show ?case
      by (auto split: if_splits option.splits simp: le_Suc_eq)
  qed
  from m x2 have d: "d \<noteq> []"
    and l: "lazy_until d (drop (length d) (c # cs)) = Some (captured, rest)"
    by (auto split: if_splits)
  from d have "length (drop (length d) (c # cs)) < length (c # cs)"
    by (cases d) auto
  with shorter [OF l]
  show "((d, open_tag, close_tag, rest), (d, open_tag, close_tag, c # cs))
          \<in> measure (\<lambda>(d, open_tag, close_tag, s). length s)"
    by simp
qed

text \<open>\<^verbatim>\<open>s.replace(/\n/g, '<br>')\<close>\<close>

definition newlines_to_br :: "jsstring \<Rightarrow> jsstring" where
  "newlines_to_br s = concat (map (\<lambda>x. if x = NEWLINE then str ''<br>'' else [x]) s)"

text \<open>
  \<open>formatText\<close>, whose result \<open>MessageBubble\<close> hands to
  \<^verbatim>\<open>dangerouslySetInnerHTML\<close> for every message that is not the user's:
  \<^verbatim>\<open>
  const formatText = (text) => {
    if (!text) return '';
    return text
      .replace(/\*\*(.*?)\*\*/g, '<strong>$1</strong>') // Bold text
      .replace(/\*(.*?)\*/g, '<em>$1</em>') // Italic text
      .replace(/`(.*?)`/g, '<code>$1</code>') // Code
      .replace(/"(.*?)"/g, '<strong>"$1"</strong>') // Bold quotes
      .replace(/\n/g, '<br>'); // Line breaks
  };
  \<close>
\<close>

definition formatText :: "jsstring \<Rightarrow> jsstring" where
  "formatText text' =
     (if text' = [] then []
      else newlines_to_br
        (replace_delimited [QUOTE] (str ''<strong>'' @ [QUOTE]) (QUOTE # str ''</strong>'')
        (replace_delimited [BACKTICK] (str ''<code>'') (str ''</code>'')
        (replace_delimited [ASTERISK] (str ''<em>'') (str ''</em>'')
        (replace_delimited [ASTERISK, ASTERISK] (str ''<strong>'') (str ''</strong>'')
           text')))))"

text \<open>
  The tags \<open>formatText\<close> writes, and the property that every \<^verbatim>\<open><\<close> of a
  string opens one of them.
\<close>

definition defined_tags :: "jsstring list" where
  "defined_tags =
     [str ''<strong>'', str ''</strong>'', str ''<em>'', str ''</em>'',
      str ''<code>'', str ''</code>'', str ''<br>'']"

fun only_defined_tags :: "jsstring \<Rightarrow> bool" where
  "only_defined_tags [] = True"
| "only_defined_tags (c # cs) =
     ((if c = LESS_THAN then list_ex (\<lambda>t. prefix t (c # cs)) defined_tags else True)
      \<and> only_defined_tags cs)"

text \<open>The characters the tags are written with.\<close>

definition tag_characters :: "code_unit set" where
  "tag_characters = (\<Union>t \<in> set defined_tags. set t)"

section \<open>The clean-up of the generated text (second variant)\<close>

text \<open>
  The list markers of the three multi-line expressions: one character of a class
  (\<^verbatim>\<open>[-*]\<close>, \<^verbatim>\<open>[-*+]\<close>) or digits and a dot (\<^verbatim>\<open>[0-9]+\.\<close>).
  \<open>match_marker\<close> gives the text matched and the rest.
\<close>

datatype marker = OneOf "code_unit list" | Numbered

fun match_marker :: "marker \<Rightarrow> jsstring \<Rightarrow> (jsstring \<times> jsstring) option" where
  "match_marker (OneOf allowed) [] = None"
| "match_marker (OneOf allowed) (c # cs) =
     (if c \<in> set allowed then Some ([c], cs) else None)"
| "match_marker Numbered s =
     (let digits = takeWhile is_digit s; after = dropWhile is_digit s
      in if digits \<noteq> [] \<and> after \<noteq> [] \<and> hd after = DOT
         then Some (digits @ [DOT], tl after) else None)"

text \<open>
  \<^verbatim>\<open>\s*marker\s*\<close> at the start of \<open>s\<close>. The runs of white space are maximal:
  no marker starts with white space, so giving some back never helps.
\<close>

definition line_marker :: "marker \<Rightarrow> jsstring \<Rightarrow> (jsstring \<times> jsstring) option" where
  "line_marker mk s =
     (case match_marker mk (dropWhile is_space s) of
        None \<Rightarrow> None
      | Some (m, r) \<Rightarrow>
          Some (takeWhile is_space s @ m @ takeWhile is_space r, dropWhile is_space r))"

text \<open>
  \<^verbatim>\<open>s.replace(/^\s*marker\s*/gm, '')\<close>. \<open>bol\<close> says whether \<^verbatim>\<open>^\<close>
  matches at the current position: at the start of the string and after a line
  terminator of the string searched, also when that terminator was part of the match
  just removed.
\<close>

function strip_line_markers :: "marker \<Rightarrow> bool \<Rightarrow> jsstring \<Rightarrow> jsstring" where
  "strip_line_markers mk bol [] = []"
| "strip_line_markers mk bol (c # cs) =
     (case (if bol then line_marker mk (c # cs) else None) of
        Some (matched, rest) \<Rightarrow>
          strip_line_markers mk (is_line_terminator (last matched)) rest
      | None \<Rightarrow> c # strip_line_markers mk (is_line_terminator c) cs)"
  by pat_completeness auto
termination
proof (relation "measure (\<lambda>(mk, bol, s). length s)")
  show "wf (measure (\<lambda>(mk :: marker, bol :: bool, s :: jsstring). length s))"
    by simp
next
  fix mk :: marker and bol :: bool and c :: code_unit and cs :: jsstring
  show "((mk, is_line_terminator c, cs), (mk, bol, c # cs))
          \<in> measure (\<lambda>(mk, bol, s). length s)"
    by simp
next
  fix mk :: marker and bol :: bool and c :: code_unit and cs :: jsstring
    and x2 :: "jsstring \<times> jsstring" and matched rest :: jsstring
  assume m: "(if bol then line_marker mk (c # cs) else None) = Some x2"
    and x2: "(matched, rest) = x2"
  have marker_shorter: "length r < length s" if "match_marker mk s = Some (k, r)" for s k r
  proof (cases mk)
    case (OneOf allowed)
    with that show ?thesis by (cases s) (auto split: if_splits)
  next
    case Numbered
    with that have "r = tl (dropWhile is_digit s)" and "dropWhile is_digit s \<noteq> []"
      by (auto simp: Let_def split: if_splits)
    then have "length r < length (dropWhile is_digit s)" by simp
    also have "\<dots> \<le> length s" by (rule length_dropWhile_le)
    finally show ?thesis .
  qed
  from m x2 have "line_marker mk (c # cs) = Some (matched, rest)"
    by (auto split: if_splits)
  then obtain k r where k: "match_marker mk (dropWhile is_space (c # cs)) = Some (k, r)"
    and r: "rest = dropWhile is_space r"
    by (auto simp: line_marker_def split: option.splits)
  have "length rest \<le> length r" unfolding r by (rule length_dropWhile_le)
  also have "\<dots> < length (dropWhile is_space (c # cs))" by (rule marker_shorter [OF k])
  also have "\<dots> \<le> length (c # cs)" by (rule length_dropWhile_le)
  finally show "((mk, is_line_terminator (last matched), rest), (mk, bol, c # cs))
          \<in> measure (\<lambda>(mk, bol, s). length s)"
    by simp
qed

text \<open>
  \<^verbatim>\<open>s.replace(/\n{3,}/g, '\n\n')\<close>: a maximal run of three or more line feeds
  becomes two.
\<close>

function limit_newlines :: "jsstring \<Rightarrow> jsstring" where
  "limit_newlines [] = []"
| "limit_newlines (c # cs) =
     (if 3 \<le> length (takeWhile (\<lambda>x. x = NEWLINE) (c # cs))
      then NEWLINE # NEWLINE # limit_newlines (dropWhile (\<lambda>x. x = NEWLINE) (c # cs))
      else c # limit_newlines cs)"
  by pat_completeness auto
termination
proof (relation "measure length")
  show "wf (measure length)" by simp
next
  fix c :: code_unit and cs :: jsstring
  assume "3 \<le> length (takeWhile (\<lambda>x. x = NEWLINE) (c # cs))"
  then have "c = NEWLINE" by (auto split: if_splits)
  then show "(dropWhile (\<lambda>x. x = NEWLINE) (c # cs), c # cs) \<in> measure length"
    using length_dropWhile_le [of "\<lambda>x. x = NEWLINE" cs] by simp
next
  fix c :: code_unit and cs :: jsstring
  show "(cs, c # cs) \<in> measure length" by simp
qed

text \<open>
  The clean-up of \<open>handleSendMessage\<close> (second variant):
  \<^verbatim>\<open>
  aiResponseText = aiResponseText
    .replace(/\*\*/g, '') // Remove asterisks
    .replace(/\*/g, '') // Remove single asterisks
    .replace(/^\s*[-*]\s*/gm, '') // Remove list markers
    .replace(/^\s*[0-9]+\.\s*/gm, '') // Remove numbered list markers
    .replace(/^\s*[-*+]\s*/gm, '') // Remove bullet points
    .replace(/\n{3,}/g, '\n\n') // Limit consecutive newlines
    .trim();
  \<close>
\<close>

definition cleanup :: "jsstring \<Rightarrow> jsstring" where
  "cleanup t =
     trim (limit_newlines
       (strip_line_markers (OneOf [HYPHEN, ASTERISK, PLUS]) True
       (strip_line_markers Numbered True
       (strip_line_markers (OneOf [HYPHEN, ASTERISK]) True
       (remove_all ASTERISK (remove_double_asterisks t))))))"

section \<open>JavaScript values\<close>

text \<open>
  What \<^verbatim>\<open>response.json()\<close> resolves to, and what reading a property of such a
  value gives. \<open>JUndefined\<close> is the value of a missing property. A number is the real
  it denotes (only its sign and whether it is zero are ever looked at).
\<close>

datatype jsval =
    JUndefined
  | JNull
  | JBool bool
  | JNum real
  | JStr jsstring
  | JArr "jsval list"
  | JObj "(jsstring \<times> jsval) list"

text \<open>A thrown or rejected error object; the code reads nothing of it but its message.\<close>

datatype js_error = Error (message: jsstring)

text \<open>
  What the code leaves to the JavaScript engine, taken as a parameter: the message of
  the \<^verbatim>\<open>TypeError\<close> raised when a property of \<^verbatim>\<open>undefined\<close> or
  \<^verbatim>\<open>null\<close> is read or a value that is no function is called; the conversion of
  a value that is not a string to a string (it can throw); and the comparison
  \<^verbatim>\<open>v > 0\<close> for a string, an array or an object (it converts \<open>v\<close> to a number
  first, which can throw).
\<close>

record js_engine =
  type_error_message :: "jsval \<Rightarrow> jsstring \<Rightarrow> jsstring"
  to_string :: "jsval \<Rightarrow> js_error + jsstring"
  to_number_gt0 :: "jsval \<Rightarrow> js_error + bool"

text \<open>Sequencing of steps that can throw: the first error ends the computation.\<close>

definition and_then :: "'e + 'a \<Rightarrow> ('a \<Rightarrow> 'e + 'b) \<Rightarrow> 'e + 'b" where
  "and_then r f = (case r of Inl e \<Rightarrow> Inl e | Inr x \<Rightarrow> f x)"

text \<open>The values that count as true in a condition.\<close>

fun truthy :: "jsval \<Rightarrow> bool" where
  "truthy JUndefined = False"
| "truthy JNull = False"
| "truthy (JBool b) = b"
| "truthy (JNum n) = (n \<noteq> 0)"
| "truthy (JStr s) = (s \<noteq> [])"
| "truthy (JArr xs) = True"
| "truthy (JObj kvs) = True"

text \<open>
  \<^verbatim>\<open>v.name\<close> and \<^verbatim>\<open>v[0]\<close> (the property named \<^verbatim>\<open>0\<close>). The code
  reads the properties \<^verbatim>\<open>candidates\<close>, \<^verbatim>\<open>content\<close>, \<^verbatim>\<open>parts\<close>,
  \<^verbatim>\<open>text\<close>, \<^verbatim>\<open>error\<close>, \<^verbatim>\<open>message\<close>, \<^verbatim>\<open>length\<close> and
  \<^verbatim>\<open>0\<close>; no prototype defines one of them, so only a value's own properties
  count.
\<close>

fun property :: "js_engine \<Rightarrow> jsval \<Rightarrow> jsstring \<Rightarrow> js_error + jsval" where
  "property rt JUndefined name = Inl (Error (type_error_message rt JUndefined name))"
| "property rt JNull name = Inl (Error (type_error_message rt JNull name))"
| "property rt (JBool b) name = Inr JUndefined"
| "property rt (JNum n) name = Inr JUndefined"
| "property rt (JStr s) name =
     Inr (if name = str ''length'' then JNum (real (length s))
          else if name = str ''0'' then (case s of [] \<Rightarrow> JUndefined | c # cs \<Rightarrow> JStr [c])
          else JUndefined)"
| "property rt (JArr xs) name =
     Inr (if name = str ''length'' then JNum (real (length xs))
          else if name = str ''0'' then (case xs of [] \<Rightarrow> JUndefined | x # ys \<Rightarrow> x)
          else JUndefined)"
| "property rt (JObj kvs) name =
     Inr (case map_of kvs name of None \<Rightarrow> JUndefined | Some v \<Rightarrow> v)"

text \<open>A chain of property reads, \<^verbatim>\<open>v.a.b.c\<close>.\<close>

fun property_path :: "js_engine \<Rightarrow> jsval \<Rightarrow> jsstring list \<Rightarrow> js_error + jsval" where
  "property_path rt v [] = Inr v"
| "property_path rt v (name # names) =
     and_then (property rt v name) (\<lambda>w. property_path rt w names)"

text \<open>
  \<^verbatim>\<open>v > 0\<close>: \<^verbatim>\<open>undefined\<close> converts to NaN, \<^verbatim>\<open>null\<close> to 0,
  \<^verbatim>\<open>true\<close> to 1.
\<close>

fun greater_than_zero :: "js_engine \<Rightarrow> jsval \<Rightarrow> js_error + bool" where
  "greater_than_zero rt JUndefined = Inr False"
| "greater_than_zero rt JNull = Inr False"
| "greater_than_zero rt (JBool b) = Inr b"
| "greater_than_zero rt (JNum n) = Inr (0 < n)"
| "greater_than_zero rt v = to_number_gt0 rt v"

text \<open>\<^verbatim>\<open>`${n}`\<close> for a natural number: its decimal digits.\<close>

function decimal :: "nat \<Rightarrow> jsstring" where
  "decimal n = (if n < 10 then [48 + n] else decimal (n div 10) @ [48 + n mod 10])"
  by pat_completeness auto
termination
  by (relation "measure id") auto

section \<open>The application state\<close>

text \<open>
  The file holds two variants of the application, one after the other: \<open>V1\<close> is the
  first (lines 1 to 403), \<open>V2\<close> the second (lines 404 to 933).
\<close>

datatype variant = V1 | V2

text \<open>
  A message of the history. \<open>sender\<close> is \<^verbatim>\<open>'user'\<close> or \<^verbatim>\<open>'ai'\<close>; a
  message built without the property \<^verbatim>\<open>error\<close> has \<open>error = False\<close>. The text is
  a value: the first variant stores whatever the response holds at
  \<^verbatim>\<open>parts[0].text\<close>.
\<close>

datatype sender = User | Ai

record message =
  text' :: jsval
  sender :: sender
  error :: bool
  id' :: nat

text \<open>One entry \<^verbatim>\<open>{ role, parts: [{ text }] }\<close> of the transcript sent.\<close>

record content =
  role :: jsstring
  parts :: "jsval list"

text \<open>A call of \<^verbatim>\<open>fetch\<close>: the address, the method and the payload's contents.\<close>

record request =
  url :: jsstring
  http_method :: jsstring
  contents :: "content list"

text \<open>
  What \<^verbatim>\<open>fetch\<close> settles to: a rejection, or a response with its
  \<^verbatim>\<open>ok\<close> flag, its status and what \<^verbatim>\<open>response.json()\<close> settles to (a
  rejection when the body is no JSON).
\<close>

record response =
  ok :: bool
  status :: nat
  json :: "js_error + jsval"

datatype fetch_result = Rejected js_error | Resolved response

text \<open>
  The state the handler reads and writes: the component's state (\<open>messages\<close>,
  \<open>input\<close>, \<open>isTyping\<close>, \<open>apiKey\<close>, \<open>voiceOutput\<close> of \<open>settings\<close>), whether the
  browser has \<^verbatim>\<open>speechSynthesis\<close>, and what the handler did to the outside: the
  calls of \<^verbatim>\<open>fetch\<close> it issued, the utterances queued for speech (a
  \<^verbatim>\<open>cancel()\<close> empties the queue), and the errors written to the console.
\<close>

record app =
  messages :: "message list"
  input :: jsstring
  isTyping :: bool
  apiKey :: jsstring
  voiceOutput :: bool
  speechSynthesis :: bool
  fetched :: "request list"
  utterances :: "jsstring list"
  console :: "js_error list"

section \<open>handleSendMessage\<close>

definition apiUrl :: "jsstring \<Rightarrow> jsstring" where
  "apiUrl key =
     str ''https://generativelanguage.googleapis.com/v1beta/models/gemini-2.5-flash-preview-05-20:generateContent?key=''
     @ key"

text \<open>
  \<^verbatim>\<open>
  const chatHistory = newMessages.map(msg => ({
      role: msg.sender === 'user' ? 'user' : 'model',
      parts: [{ text: msg.text }]
  }));
  \<close>
\<close>

definition chatHistory :: "message list \<Rightarrow> content list" where
  "chatHistory newMessages =
     map (\<lambda>msg. \<lparr>role = (if sender msg = User then str ''user'' else str ''model''),
                 parts = [text' msg]\<rparr>) newMessages"

text \<open>
  The handler is an \<^verbatim>\<open>async\<close> function: a call runs up to
  \<^verbatim>\<open>await fetch(...)\<close> and returns; the rest runs when \<^verbatim>\<open>fetch\<close> has
  settled. \<open>handleSendMessage_start\<close> is the first part, the same text in both variants
  (lines 105 to 130 and 516 to 540); \<open>now\<close> is \<^verbatim>\<open>Date.now()\<close>.
  \<^verbatim>\<open>
  if (input.trim() === '' || isTyping) return;
  const userMessage = { text: input, sender: 'user', id: Date.now() };
  const newMessages = [...messages, userMessage];
  setMessages(newMessages);
  const currentInput = input;
  setInput('');
  setIsTyping(true);
  try {
      const chatHistory = ...
      const payload = { contents: chatHistory };
      const apiUrl = `https://...:generateContent?key=${apiKey}`;
      const response = await fetch(apiUrl, {
          method: 'POST',
          headers: { 'Content-Type': 'application/json' },
          body: JSON.stringify(payload)
      });
  \<close>
  The handler is taken to read the state as it is when it is called (the component has
  rendered since the last change of state).
\<close>

definition handleSendMessage_start :: "nat \<Rightarrow> app \<Rightarrow> app" where
  "handleSendMessage_start now s =
     (if trim (input s) = [] \<or> isTyping s then s
      else
        let userMessage = \<lparr>text' = JStr (input s), sender = User, error = False, id' = now\<rparr>;
            newMessages = messages s @ [userMessage]
        in s\<lparr>messages := newMessages, input := [], isTyping := True,
             fetched := fetched s @
               [\<lparr>url = apiUrl (apiKey s), http_method = str ''POST'',
                 contents = chatHistory newMessages\<rparr>]\<rparr>)"

text \<open>
  The error thrown for a response that is not \<^verbatim>\<open>ok\<close>, once its body is read:
  \<^verbatim>\<open>
  throw new Error(errorData.error.message || `API call failed with status: ${response.status}`);
  \<close>
  in the first variant, and
  \<^verbatim>\<open>
  throw new Error(`An error occurred. Please try again.`);
  \<close>
  in the second.
\<close>

definition api_error :: "variant \<Rightarrow> js_engine \<Rightarrow> jsval \<Rightarrow> nat \<Rightarrow> js_error" where
  "api_error v rt errorData st =
     (case v of
        V1 \<Rightarrow>
          (case property_path rt errorData [str ''error'', str ''message''] of
             Inl e \<Rightarrow> e
           | Inr m \<Rightarrow>
               if truthy m
               then (case m of
                       JStr s \<Rightarrow> Error s
                     | _ \<Rightarrow> (case to_string rt m of Inl e \<Rightarrow> e | Inr s \<Rightarrow> Error s))
               else Error (str ''API call failed with status: '' @ decimal st))
      | V2 \<Rightarrow> Error (str ''An error occurred. Please try again.''))"

text \<open>
  The condition under which the response is taken to hold a generated text:
  \<^verbatim>\<open>
  result.candidates && result.candidates.length > 0 && result.candidates[0].content
    && result.candidates[0].content.parts && result.candidates[0].content.parts.length > 0
  \<close>
\<close>

definition has_generated_text :: "js_engine \<Rightarrow> jsval \<Rightarrow> js_error + bool" where
  "has_generated_text rt result =
     and_then (property_path rt result [str ''candidates'']) (\<lambda>a.
     if \<not> truthy a then Inr False else
     and_then (property_path rt result [str ''candidates'', str ''length'']) (\<lambda>n.
     and_then (greater_than_zero rt n) (\<lambda>b.
     if \<not> b then Inr False else
     and_then (property_path rt result [str ''candidates'', str ''0'', str ''content'']) (\<lambda>c.
     if \<not> truthy c then Inr False else
     and_then (property_path rt result
                 [str ''candidates'', str ''0'', str ''content'', str ''parts'']) (\<lambda>p.
     if \<not> truthy p then Inr False else
     and_then (property_path rt result
                 [str ''candidates'', str ''0'', str ''content'', str ''parts'', str ''length''])
       (greater_than_zero rt))))))"

definition fallback_text :: jsstring where
  "fallback_text = str ''I'm sorry, I couldn't generate a response. Please try again.''"

text \<open>
  \<^verbatim>\<open>aiResponseText.trim()\<close> and the chain of \<^verbatim>\<open>aiResponseText.replace(...)\<close>
  of the clean-up: only a string has these methods.
\<close>

definition call_trim :: "js_engine \<Rightarrow> jsval \<Rightarrow> js_error + jsstring" where
  "call_trim rt v =
     (case v of
        JStr s \<Rightarrow> Inr (trim s)
      | _ \<Rightarrow> Inl (Error (type_error_message rt v (str ''trim''))))"

definition call_cleanup :: "js_engine \<Rightarrow> jsval \<Rightarrow> js_error + jsstring" where
  "call_cleanup rt v =
     (case v of
        JStr s \<Rightarrow> Inr (cleanup s)
      | _ \<Rightarrow> Inl (Error (type_error_message rt v (str ''replace''))))"

text \<open>
  From the settling of \<^verbatim>\<open>fetch\<close> to the value of \<^verbatim>\<open>aiResponseText\<close> (lines
  132 to 144 and 542 to 564), or the error thrown on the way:
  \<^verbatim>\<open>
  if (!response.ok) {
      const errorData = await response.json();
      throw new Error(...);
  }
  const result = await response.json();
  let aiResponseText = '';
  if (result.candidates && ...) {
      aiResponseText = result.candidates[0].content.parts[0].text;
      // second variant only: the clean-up
  } else {
      aiResponseText = "I'm sorry, I couldn't generate a response. Please try again.";
  }
  \<close>
\<close>

definition aiResponseText :: "variant \<Rightarrow> js_engine \<Rightarrow> fetch_result \<Rightarrow> js_error + jsval" where
  "aiResponseText v rt fetch_result =
     (case fetch_result of
        Rejected e \<Rightarrow> Inl e
      | Resolved response \<Rightarrow>
          if \<not> ok response
          then and_then (json response) (\<lambda>errorData.
                 Inl (api_error v rt errorData (status response)))
          else and_then (json response) (\<lambda>result.
               and_then (has_generated_text rt result) (\<lambda>present.
                 if present
                 then and_then
                        (property_path rt result
                           [str ''candidates'', str ''0'', str ''content'', str ''parts'',
                            str ''0'', str ''text''])
                        (\<lambda>t. case v of
                                V1 \<Rightarrow> Inr t
                              | V2 \<Rightarrow> and_then (call_cleanup rt t) (\<lambda>c. Inr (JStr c)))
                 else Inr (JStr fallback_text))))"

text \<open>
  \<open>speak\<close>: the first variant speaks the text as it is, the second \<open>cleanText\<close> of it.
  \<^verbatim>\<open>
  if ('speechSynthesis' in window && text) {
    const utterance = new SpeechSynthesisUtterance(...);
    speechSynthesis.cancel(); // Cancel any previous speech
    speechSynthesis.speak(utterance);
  }
  \<close>
\<close>

definition speak :: "variant \<Rightarrow> jsstring \<Rightarrow> app \<Rightarrow> app" where
  "speak v t s =
     (if speechSynthesis s \<and> t \<noteq> []
      then s\<lparr>utterances := [case v of V1 \<Rightarrow> t | V2 \<Rightarrow> cleanText t]\<rparr>
      else s)"

text \<open>
  The rest of the \<^verbatim>\<open>try\<close> block: the state it leaves, and the error if one was
  thrown. \<open>now\<close> is \<^verbatim>\<open>Date.now()\<close>.
  \<^verbatim>\<open>
  const aiMessage = { text: aiResponseText, sender: 'ai', id: Date.now() + 1 };
  setMessages(prev => [...prev, aiMessage]);
  if (settings.voiceOutput) {
      speak(aiResponseText.trim());
  }
  \<close>
\<close>

definition try_block ::
  "variant \<Rightarrow> js_engine \<Rightarrow> fetch_result \<Rightarrow> nat \<Rightarrow> app \<Rightarrow> js_error option \<times> app" where
  "try_block v rt fetch_result now s =
     (case aiResponseText v rt fetch_result of
        Inl e \<Rightarrow> (Some e, s)
      | Inr t \<Rightarrow>
          let aiMessage = \<lparr>text' = t, sender = Ai, error = False, id' = now + 1\<rparr>;
              s1 = s\<lparr>messages := messages s @ [aiMessage]\<rparr>
          in if voiceOutput s1
             then (case call_trim rt t of
                     Inl e \<Rightarrow> (Some e, s1)
                   | Inr trimmed \<Rightarrow> (None, speak v trimmed s1))
             else (None, s1))"

text \<open>
  \<^verbatim>\<open>
  } catch (error) {
    console.error('Error sending message:', error);
    const errorMessage = { text: ..., sender: 'ai', error: true, id: Date.now() + 1 };
    setMessages(prev => [...prev, errorMessage]);
  }
  \<close>
  with the text \<^verbatim>\<open>`Sorry, something went wrong: ${error.message}`\<close> in the first
  variant and \<^verbatim>\<open>`Sorry, an error occurred. Please try again.`\<close> in the second.
\<close>

definition catch_block :: "variant \<Rightarrow> js_error \<Rightarrow> nat \<Rightarrow> app \<Rightarrow> app" where
  "catch_block v e now s =
     (let errorMessage =
            \<lparr>text' = JStr (case v of
                            V1 \<Rightarrow> str ''Sorry, something went wrong: '' @ message e
                          | V2 \<Rightarrow> str ''Sorry, an error occurred. Please try again.''),
             sender = Ai, error = True, id' = now + 1\<rparr>
      in s\<lparr>messages := messages s @ [errorMessage], console := console s @ [e]\<rparr>)"

text \<open>
  The second part of the handler, run when \<^verbatim>\<open>fetch\<close> has settled:
  \<^verbatim>\<open>try { ... } catch (error) { ... } finally { setIsTyping(false); }\<close>
  One reading \<open>now\<close> of the clock stands for the \<^verbatim>\<open>Date.now()\<close> of the
  \<^verbatim>\<open>try\<close> block and for that of the \<^verbatim>\<open>catch\<close> block; the
  identifiers are the only place where it shows.
\<close>

definition handleSendMessage_resume ::
  "variant \<Rightarrow> js_engine \<Rightarrow> fetch_result \<Rightarrow> nat \<Rightarrow> app \<Rightarrow> app" where
  "handleSendMessage_resume v rt fetch_result now s =
     (case try_block v rt fetch_result now s of
        (None, s1) \<Rightarrow> s1\<lparr>isTyping := False\<rparr>
      | (Some e, s1) \<Rightarrow> (catch_block v e now s1)\<lparr>isTyping := False\<rparr>)"

text \<open>
  A whole turn, with nothing else happening between its two parts: the call at time
  \<open>now\<close>, and, if it did not return at the guard, its second part at time \<open>later\<close>.
\<close>

definition handleSendMessage ::
  "variant \<Rightarrow> js_engine \<Rightarrow> nat \<Rightarrow> fetch_result \<Rightarrow> nat \<Rightarrow> app \<Rightarrow> app" where
  "handleSendMessage v rt now fetch_result later s =
     (if trim (input s) = [] \<or> isTyping s then s
      else handleSendMessage_resume v rt fetch_result later (handleSendMessage_start now s))"

section \<open>Concrete runs\<close>

text \<open>
  An engine for the runs below, with messages in the style of V8. The runs never reach
  its two conversions.
\<close>

definition sample_engine :: js_engine where
  "sample_engine =
     \<lparr>type_error_message = (\<lambda>v name.
        case v of
          JUndefined \<Rightarrow>
            str ''Cannot read properties of undefined (reading '' @ [APOSTROPHE] @ name
              @ [APOSTROPHE] @ str '')''
        | JNull \<Rightarrow>
            str ''Cannot read properties of null (reading '' @ [APOSTROPHE] @ name
              @ [APOSTROPHE] @ str '')''
        | _ \<Rightarrow> name @ str '' is not a function''),
      to_string = (\<lambda>v. Inr (str ''[object Object]'')),
      to_number_gt0 = (\<lambda>v. Inr False)\<rparr>"

text \<open>
  The state of a session that has a key, the user having typed \<^verbatim>\<open>Hello\<close>; and the
  state right after the component is mounted or after \<open>handleLogout\<close>, where
  \<open>apiKey\<close> is the empty string, with the same input.
\<close>

definition hello :: app where
  "hello =
     \<lparr>messages = [], input = str ''Hello'', isTyping = False, apiKey = str ''secret'',
      voiceOutput = True, speechSynthesis = True, fetched = [], utterances = [],
      console = []\<rparr>"

definition hello_without_key :: app where
  "hello_without_key = hello\<lparr>apiKey := []\<rparr>"

text \<open>
  A response whose only part holds no text (as a part holding a function call or
  inline data does).
\<close>

definition part_without_text :: fetch_result where
  "part_without_text =
     Resolved \<lparr>ok = True, status = 200, json = Inr
       (JObj [(str ''candidates'',
          JArr [JObj [(str ''content'',
            JObj [(str ''parts'', JArr [JObj [(str ''inlineData'', JObj [])]]),
                  (str ''role'', JStr (str ''model''))])]])])\<rparr>"

text \<open>A response that refuses the key, and a request that never reached the service.\<close>

definition key_refused :: fetch_result where
  "key_refused =
     Resolved \<lparr>ok = False, status = 400, json = Inr
       (JObj [(str ''error'',
          JObj [(str ''code'', JNum 400),
                (str ''message'', JStr (str ''API key not valid. Please pass a valid API key.'')),
                (str ''status'', JStr (str ''INVALID_ARGUMENT''))])])\<rparr>"

definition network_down :: fetch_result where
  "network_down = Rejected (Error (str ''Failed to fetch''))"

text \<open>A session with two earlier messages, the user having typed a third.\<close>

definition mid_conversation :: app where
  "mid_conversation =
     hello\<lparr>messages :=
             [\<lparr>text' = JStr (str ''Hi''), sender = User, error = False, id' = 1\<rparr>,
              \<lparr>text' = JStr (str ''Hello!''), sender = Ai, error = False, id' = 3\<rparr>],
           input := str ''How are you?''\<rparr>"

text \<open>A response whose only candidate was stopped and carries no content.\<close>

definition blocked_candidate :: response where
  "blocked_candidate =
     \<lparr>ok = True, status = 200, json = Inr
       (JObj [(str ''candidates'',
          JArr [JObj [(str ''finishReason'', JStr (str ''SAFETY'')),
                      (str ''index'', JNum 0)]])])\<rparr>"

text \<open>
  An assistant text that is markup: an image whose \<^verbatim>\<open>onerror\<close> handler runs
  when the text is set as \<^verbatim>\<open>innerHTML\<close>.
\<close>

definition injected_image :: jsstring where
  "injected_image = str ''<img src=x onerror=alert(1)>''"

text \<open>A response with a generated text that has a list marker, emphasis and blank lines.\<close>

definition formatted_reply :: fetch_result where
  "formatted_reply =
     Resolved \<lparr>ok = True, status = 200, json = Inr
       (JObj [(str ''candidates'',
          JArr [JObj [(str ''content'',
            JObj [(str ''parts'',
                   JArr [JObj [(str ''text'',
                     JStr (str ''- **Hi** there\<newline>\<newline>\<newline>\<newline>Bye  ''))]]),
                  (str ''role'', JStr (str ''model''))])]])])\<rparr>"

section \<open>The conditions the properties speak of\<close>

text \<open>
  A failed exchange: the request was rejected (a network failure), the response's
  status is not a success, or its body cannot be parsed.
\<close>

fun failed :: "fetch_result \<Rightarrow> bool" where
  "failed (Rejected e) = True"
| "failed (Resolved r) = (if ok r then isl (json r) else True)"

text \<open>
  A parsed response without a generated text: an object with no candidates (the
  property missing, \<^verbatim>\<open>null\<close> or an empty array), or whose first candidate is an
  object with no content (missing or \<^verbatim>\<open>null\<close>), or whose content is an object
  with no parts (missing, \<^verbatim>\<open>null\<close> or an empty array).
\<close>

fun no_parts :: "jsval \<Rightarrow> bool" where
  "no_parts (JObj kvs) =
     (case map_of kvs (str ''parts'') of
        None \<Rightarrow> True
      | Some JNull \<Rightarrow> True
      | Some (JArr []) \<Rightarrow> True
      | Some other \<Rightarrow> False)"
| "no_parts other = False"

fun no_content :: "jsval \<Rightarrow> bool" where
  "no_content (JObj kvs) =
     (case map_of kvs (str ''content'') of
        None \<Rightarrow> True
      | Some JNull \<Rightarrow> True
      | Some c \<Rightarrow> no_parts c)"
| "no_content other = False"

fun no_generated_fragment :: "jsval \<Rightarrow> bool" where
  "no_generated_fragment (JObj kvs) =
     (case map_of kvs (str ''candidates'') of
        None \<Rightarrow> True
      | Some JNull \<Rightarrow> True
      | Some (JArr []) \<Rightarrow> True
      | Some (JArr (c # cs)) \<Rightarrow> no_content c
      | Some other \<Rightarrow> False)"
| "no_generated_fragment other = False"

section \<open>Properties of the string functions\<close>

subsection \<open>trim\<close>

lemma set_trim: "set (trim s) \<subseteq> set s"
proof -
  have "set (trim s) = set (dropWhile is_space (rev (dropWhile is_space s)))"
    by (simp add: trim_def)
  also have "\<dots> \<subseteq> set (rev (dropWhile is_space s))"
    by (auto dest: set_dropWhileD)
  also have "\<dots> \<subseteq> set s"
    by (auto dest: set_dropWhileD)
  finally show ?thesis .
qed

lemma trim_prefix_of_suffix: "prefix (trim s) (dropWhile is_space s)"
proof -
  have "suffix (dropWhile is_space (rev (dropWhile is_space s))) (rev (dropWhile is_space s))"
    by (rule suffix_dropWhile)
  then show ?thesis by (simp add: trim_def suffix_to_prefix)
qed

lemma sublist_trim: "sublist (trim s) s"
proof -
  have "sublist (trim s) (dropWhile is_space s)"
    using trim_prefix_of_suffix by (rule prefix_imp_sublist)
  moreover have "sublist (dropWhile is_space s) s"
    using suffix_dropWhile by (rule suffix_imp_sublist)
  ultimately show ?thesis by (rule sublist_order.order_trans)
qed

lemma trim_last: "trim s \<noteq> [] \<Longrightarrow> \<not> is_space (last (trim s))"
proof -
  assume ne: "trim s \<noteq> []"
  let ?u = "dropWhile is_space (rev (dropWhile is_space s))"
  from ne have u: "?u \<noteq> []" by (simp add: trim_def)
  then have "\<not> is_space (hd ?u)" by (rule hd_dropWhile)
  moreover have "last (trim s) = hd ?u"
    using u by (simp add: trim_def last_rev)
  ultimately show ?thesis by simp
qed

lemma trim_hd: "trim s \<noteq> [] \<Longrightarrow> \<not> is_space (hd (trim s))"
proof -
  assume ne: "trim s \<noteq> []"
  from trim_prefix_of_suffix obtain zs where z: "dropWhile is_space s = trim s @ zs"
    by (auto simp: prefix_def)
  with ne have d: "dropWhile is_space s \<noteq> []" by auto
  from z ne have "hd (dropWhile is_space s) = hd (trim s)" by simp
  with hd_dropWhile [OF d] show ?thesis by simp
qed

lemma trim_fixed:
  assumes "s = [] \<or> (\<not> is_space (hd s) \<and> \<not> is_space (last s))"
  shows "trim s = s"
proof (cases s)
  case Nil
  then show ?thesis by (simp add: trim_def)
next
  case (Cons a as)
  with assms have h: "\<not> is_space a" and l: "\<not> is_space (last s)" by auto
  from h Cons have 1: "dropWhile is_space s = s" by simp
  from Cons have "s \<noteq> []" by simp
  then obtain ys y where s: "s = ys @ [y]"
    by (metis rev_exhaust)
  with l have 2: "dropWhile is_space (rev s) = rev s" by simp
  show ?thesis by (simp add: trim_def 1 2)
qed

lemma trim_trim: "trim (trim s) = trim s"
  by (rule trim_fixed) (use trim_hd trim_last in blast)

lemma filter_trim:
  assumes "\<And>x. P x \<Longrightarrow> \<not> is_space x"
  shows "filter P (trim s) = filter P s"
proof -
  have drop: "filter P (dropWhile is_space xs) = filter P xs" for xs
    using assms by (induction xs) auto
  have "filter P (trim s) = rev (filter P (dropWhile is_space (rev (dropWhile is_space s))))"
    by (simp add: trim_def rev_filter)
  also have "\<dots> = rev (filter P (rev (dropWhile is_space s)))"
    by (simp only: drop)
  also have "\<dots> = filter P (dropWhile is_space s)"
    by (simp add: rev_filter)
  also have "\<dots> = filter P s" by (rule drop)
  finally show ?thesis .
qed

subsection \<open>Removing characters\<close>

lemma set_remove_double_asterisks: "set (remove_double_asterisks s) \<subseteq> set s"
  by (induction s rule: remove_double_asterisks.induct) auto

lemma remove_double_asterisks_fixed:
  "ASTERISK \<notin> set s \<Longrightarrow> remove_double_asterisks s = s"
  by (induction s rule: remove_double_asterisks.induct) auto

lemma filter_remove_double_asterisks:
  "\<not> P ASTERISK \<Longrightarrow> filter P (remove_double_asterisks s) = filter P s"
  by (induction s rule: remove_double_asterisks.induct) auto

lemma set_remove_all: "set (remove_all c s) = set s - {c}"
  by (auto simp: remove_all_def)

lemma remove_all_fixed: "c \<notin> set s \<Longrightarrow> remove_all c s = s"
  by (induction s) (auto simp: remove_all_def)

lemma filter_remove_all: "\<not> P c \<Longrightarrow> filter P (remove_all c s) = filter P s"
  by (induction s) (auto simp: remove_all_def)

subsection \<open>White space\<close>

lemma is_space_simps:
  "is_space SPACE" "is_space NEWLINE" "\<not> is_space ASTERISK" "\<not> is_space BACKTICK"
  "\<not> is_space LESS_THAN" "\<not> is_space GREATER_THAN"
  by (simp_all add: is_space_def)

lemma set_newlines_to_spaces: "set (newlines_to_spaces s) \<subseteq> insert SPACE (set s)"
  by (auto simp: newlines_to_spaces_def)

lemma newlines_to_spaces_fixed: "NEWLINE \<notin> set s \<Longrightarrow> newlines_to_spaces s = s"
  by (induction s) (auto simp: newlines_to_spaces_def)

lemma filter_newlines_to_spaces:
  "\<not> P NEWLINE \<Longrightarrow> \<not> P SPACE \<Longrightarrow> filter P (newlines_to_spaces s) = filter P s"
  by (induction s) (auto simp: newlines_to_spaces_def)

lemma filter_dropWhile_space:
  assumes "\<And>x. P x \<Longrightarrow> \<not> is_space x"
  shows "filter P (dropWhile is_space s) = filter P s"
  using assms by (induction s) auto

lemma set_collapse_spaces: "set (collapse_spaces s) \<subseteq> insert SPACE (set s)"
proof (induction s rule: collapse_spaces.induct)
  case 1
  then show ?case by simp
next
  case (2 c cs)
  have "set (dropWhile is_space cs) \<subseteq> set cs" by (auto dest: set_dropWhileD)
  with 2 show ?case by auto
qed

lemma filter_collapse_spaces:
  assumes "\<And>x. P x \<Longrightarrow> \<not> is_space x"
  shows "filter P (collapse_spaces s) = filter P s"
proof (induction s rule: collapse_spaces.induct)
  case 1
  then show ?case by simp
next
  case (2 c cs)
  have sp: "\<not> P SPACE" using assms [of SPACE] by (auto simp: is_space_simps)
  show ?case
  proof (cases "is_space c")
    case True
    then have "\<not> P c" using assms by blast
    with True 2 sp show ?thesis
      by (simp add: filter_dropWhile_space [of P, OF assms])
  next
    case False
    with 2 show ?thesis by simp
  qed
qed

lemma collapse_spaces_only_space:
  "c \<in> set (collapse_spaces s) \<Longrightarrow> is_space c \<Longrightarrow> c = SPACE"
proof (induction s rule: collapse_spaces.induct)
  case 1
  then show ?case by simp
next
  case (2 a cs)
  then show ?case by (auto split: if_splits)
qed

lemma collapse_spaces_no_double:
  "\<not> sublist [SPACE, SPACE] (collapse_spaces s)"
proof (induction s rule: collapse_spaces.induct)
  case 1
  then show ?case by simp
next
  case (2 c cs)
  show ?case
  proof (cases "is_space c")
    case True
    let ?t = "dropWhile is_space cs"
    have start: "\<not> prefix [SPACE, SPACE] (SPACE # collapse_spaces ?t)"
    proof (cases ?t)
      case Nil
      show ?thesis unfolding Nil by simp
    next
      case (Cons a as)
      then have "\<not> is_space a"
        using hd_dropWhile [of is_space cs] by auto
      then have "a \<noteq> SPACE" by (auto simp: is_space_simps)
      with \<open>\<not> is_space a\<close> show ?thesis unfolding Cons by simp
    qed
    from True 2 have "\<not> sublist [SPACE, SPACE] (collapse_spaces ?t)" by simp
    with start True show ?thesis by (simp add: sublist_Cons_right)
  next
    case False
    then have "c \<noteq> SPACE" by (auto simp: is_space_simps)
    with False 2 show ?thesis by (simp add: sublist_Cons_right)
  qed
qed

lemma collapse_spaces_fixed:
  assumes "\<And>c. c \<in> set s \<Longrightarrow> is_space c \<Longrightarrow> c = SPACE"
    and "\<not> sublist [SPACE, SPACE] s"
  shows "collapse_spaces s = s"
  using assms
proof (induction s rule: collapse_spaces.induct)
  case 1
  then show ?case by simp
next
  case (2 c cs)
  from "2.prems"(2) have tail: "\<not> sublist [SPACE, SPACE] cs"
    and start: "\<not> prefix [SPACE, SPACE] (c # cs)"
    by (simp_all add: sublist_Cons_right)
  have spaces: "x = SPACE" if "x \<in> set cs" and "is_space x" for x
    using "2.prems"(1) [of x] that by simp
  show ?case
  proof (cases "is_space c")
    case True
    have c: "c = SPACE"
      using "2.prems"(1) [of c] True by simp
    have keep: "dropWhile is_space cs = cs"
    proof (cases cs)
      case Nil
      then show ?thesis by simp
    next
      case (Cons a as)
      with start c have "a \<noteq> SPACE" by auto
      with spaces [of a] Cons have "\<not> is_space a" by auto
      with Cons show ?thesis by simp
    qed
    have "collapse_spaces cs = cs"
      using True tail spaces by (intro "2.IH"(1) [unfolded keep]) auto
    with True c keep show ?thesis by simp
  next
    case False
    have "collapse_spaces cs = cs"
      using False tail spaces by (intro "2.IH"(2)) auto
    with False show ?thesis by simp
  qed
qed

subsection \<open>Tags\<close>

lemma set_strip_tags: "set (strip_tags s) \<subseteq> set s"
proof (induction s rule: strip_tags.induct)
  case 1
  then show ?case by simp
next
  case (2 c cs)
  have "set (tl (dropWhile (\<lambda>x. x \<noteq> GREATER_THAN) cs)) \<subseteq> set cs"
    by (metis list.set_sel(2) set_dropWhileD subsetI tl_Nil)
  with 2 show ?case by auto
qed

lemma strip_tags_no_tag:
  "GREATER_THAN \<notin> set (dropWhile (\<lambda>x. x \<noteq> LESS_THAN) (strip_tags s))"
proof (induction s rule: strip_tags.induct)
  case 1
  then show ?case by simp
next
  case (2 c cs)
  show ?case
  proof (cases "c = LESS_THAN \<and> GREATER_THAN \<in> set cs")
    case True
    with 2 show ?thesis by simp
  next
    case False
    show ?thesis
    proof (cases "c = LESS_THAN")
      case True
      with False have "GREATER_THAN \<notin> set cs" by simp
      with set_strip_tags [of cs] have "GREATER_THAN \<notin> set (strip_tags cs)" by auto
      with True False show ?thesis by simp
    next
      case c: False
      with False 2 show ?thesis by simp
    qed
  qed
qed

lemma strip_tags_fixed:
  "GREATER_THAN \<notin> set (dropWhile (\<lambda>x. x \<noteq> LESS_THAN) s) \<Longrightarrow> strip_tags s = s"
proof (induction s)
  case Nil
  then show ?case by simp
next
  case (Cons c cs)
  show ?case
  proof (cases "c = LESS_THAN")
    case True
    with Cons.prems have no: "GREATER_THAN \<notin> set cs" by simp
    then have "GREATER_THAN \<notin> set (dropWhile (\<lambda>x. x \<noteq> LESS_THAN) cs)"
      by (auto dest: set_dropWhileD)
    with Cons.IH no show ?thesis by simp
  next
    case False
    with Cons show ?thesis by simp
  qed
qed

lemma no_tag_filter:
  "GREATER_THAN \<in> set (dropWhile (\<lambda>x. x \<noteq> LESS_THAN) s)
   \<longleftrightarrow> GREATER_THAN \<in> set (dropWhile (\<lambda>x. x \<noteq> LESS_THAN)
                           (filter (\<lambda>x. x = LESS_THAN \<or> x = GREATER_THAN) s))"
  by (induction s) auto

subsection \<open>cleanText\<close>

lemma filter_after_strip_tags:
  assumes "\<And>x. P x \<Longrightarrow> \<not> is_space x \<and> x \<noteq> ASTERISK \<and> x \<noteq> BACKTICK"
  shows "filter P (cleanText s) = filter P (strip_tags s)"
proof -
  have sp: "\<And>x. P x \<Longrightarrow> \<not> is_space x" using assms by blast
  have no: "\<not> P ASTERISK" "\<not> P BACKTICK" "\<not> P NEWLINE" "\<not> P SPACE"
    using assms [of ASTERISK] assms [of BACKTICK] assms [of NEWLINE] assms [of SPACE]
    by (auto simp: is_space_simps)
  show ?thesis
    unfolding cleanText_def
    by (simp add: filter_trim [of P, OF sp] filter_collapse_spaces [of P, OF sp]
        filter_newlines_to_spaces filter_remove_all filter_remove_double_asterisks no)
qed

lemma cleanText_no_tag:
  "GREATER_THAN \<notin> set (dropWhile (\<lambda>x. x \<noteq> LESS_THAN) (cleanText s))"
proof -
  have same: "filter (\<lambda>x. x = LESS_THAN \<or> x = GREATER_THAN) (cleanText s)
      = filter (\<lambda>x. x = LESS_THAN \<or> x = GREATER_THAN) (strip_tags s)"
    by (rule filter_after_strip_tags) (auto simp: is_space_simps)
  have "GREATER_THAN \<notin> set (dropWhile (\<lambda>x. x \<noteq> LESS_THAN)
          (filter (\<lambda>x. x = LESS_THAN \<or> x = GREATER_THAN) (strip_tags s)))"
    using strip_tags_no_tag [of s] no_tag_filter [of "strip_tags s"] by blast
  then have "GREATER_THAN \<notin> set (dropWhile (\<lambda>x. x \<noteq> LESS_THAN)
          (filter (\<lambda>x. x = LESS_THAN \<or> x = GREATER_THAN) (cleanText s)))"
    by (simp add: same)
  then show ?thesis
    using no_tag_filter [of "cleanText s"] by blast
qed

lemma cleanText_set:
  "set (cleanText s) \<subseteq> insert SPACE (set s) - {ASTERISK, BACKTICK}"
proof -
  let ?a = "remove_all ASTERISK (remove_double_asterisks (strip_tags s))"
  let ?b = "remove_all BACKTICK ?a"
  have a: "set ?a \<subseteq> set s - {ASTERISK}"
    using set_remove_double_asterisks [of "strip_tags s"] set_strip_tags [of s]
    by (auto simp: set_remove_all)
  then have b: "set ?b \<subseteq> set s - {ASTERISK, BACKTICK}"
    by (auto simp: set_remove_all)
  have "set (cleanText s) \<subseteq> set (collapse_spaces (newlines_to_spaces ?b))"
    unfolding cleanText_def by (rule set_trim)
  also have "\<dots> \<subseteq> insert SPACE (set (newlines_to_spaces ?b))"
    by (rule set_collapse_spaces)
  also have "\<dots> \<subseteq> insert SPACE (set ?b)"
    using set_newlines_to_spaces [of ?b] by auto
  finally have "set (cleanText s) \<subseteq> insert SPACE (set ?b)" .
  with b show ?thesis by auto
qed

lemma cleanText_only_space:
  assumes "c \<in> set (cleanText s)" and "is_space c"
  shows "c = SPACE"
proof -
  from assms(1) set_trim have "c \<in> set (collapse_spaces (newlines_to_spaces
      (remove_all BACKTICK (remove_all ASTERISK (remove_double_asterisks (strip_tags s))))))"
    unfolding cleanText_def by blast
  from this assms(2) show ?thesis by (rule collapse_spaces_only_space)
qed

lemma cleanText_no_double: "\<not> sublist [SPACE, SPACE] (cleanText s)"
proof
  assume "sublist [SPACE, SPACE] (cleanText s)"
  moreover have "sublist (cleanText s) (collapse_spaces (newlines_to_spaces
      (remove_all BACKTICK (remove_all ASTERISK (remove_double_asterisks (strip_tags s))))))"
    unfolding cleanText_def by (rule sublist_trim)
  ultimately have "sublist [SPACE, SPACE] (collapse_spaces (newlines_to_spaces
      (remove_all BACKTICK (remove_all ASTERISK (remove_double_asterisks (strip_tags s))))))"
    by (rule sublist_order.order_trans)
  then show False by (simp add: collapse_spaces_no_double)
qed

subsection \<open>The clean-up\<close>

lemma match_marker_rest:
  "match_marker mk s = Some (m, r) \<Longrightarrow> set r \<subseteq> set s"
proof (cases mk)
  case (OneOf allowed)
  assume "match_marker mk s = Some (m, r)"
  with OneOf show ?thesis by (cases s) (auto split: if_splits)
next
  case Numbered
  assume "match_marker mk s = Some (m, r)"
  with Numbered have "r = tl (dropWhile is_digit s)" and "dropWhile is_digit s \<noteq> []"
    by (auto simp: Let_def split: if_splits)
  then have "set r \<subseteq> set (dropWhile is_digit s)"
    using list.set_sel(2) [of "dropWhile is_digit s"] by auto
  also have "\<dots> \<subseteq> set s" by (auto dest: set_dropWhileD)
  finally show ?thesis .
qed

lemma line_marker_rest:
  assumes "line_marker mk s = Some (m, r)"
  shows "set r \<subseteq> set s"
proof -
  from assms obtain k q where k: "match_marker mk (dropWhile is_space s) = Some (k, q)"
    and r: "r = dropWhile is_space q"
    by (auto simp: line_marker_def split: option.splits)
  have "set r \<subseteq> set q" unfolding r by (auto dest: set_dropWhileD)
  also have "\<dots> \<subseteq> set (dropWhile is_space s)" using k by (rule match_marker_rest)
  also have "\<dots> \<subseteq> set s" by (auto dest: set_dropWhileD)
  finally show ?thesis .
qed

lemma set_strip_line_markers: "set (strip_line_markers mk bol s) \<subseteq> set s"
proof (induction mk bol s rule: strip_line_markers.induct)
  case (1 mk bol)
  then show ?case by simp
next
  case (2 mk bol c cs)
  show ?case
  proof (cases "if bol then line_marker mk (c # cs) else None")
    case None
    with 2 show ?thesis by auto
  next
    case (Some found)
    obtain matched rest where found: "found = (matched, rest)" by (cases found)
    with Some have "line_marker mk (c # cs) = Some (matched, rest)"
      by (auto split: if_splits)
    then have "set rest \<subseteq> set (c # cs)" by (rule line_marker_rest)
    moreover have "set (strip_line_markers mk (is_line_terminator (last matched)) rest) \<subseteq> set rest"
      using Some found [symmetric] by (rule "2.IH"(2))
    ultimately show ?thesis using Some found by auto
  qed
qed

lemma set_limit_newlines: "set (limit_newlines s) \<subseteq> set s"
proof (induction s rule: limit_newlines.induct)
  case 1
  then show ?case by simp
next
  case (2 c cs)
  show ?case
  proof (cases "3 \<le> length (takeWhile (\<lambda>x. x = NEWLINE) (c # cs))")
    case True
    then have c: "c = NEWLINE" by (auto split: if_splits)
    have "set (dropWhile (\<lambda>x. x = NEWLINE) (c # cs)) \<subseteq> set (c # cs)"
      by (auto dest: set_dropWhileD)
    with True 2 c show ?thesis by auto
  next
    case False
    with 2 show ?thesis by auto
  qed
qed

lemma limit_newlines_no_triple:
  "\<not> sublist [NEWLINE, NEWLINE, NEWLINE] (limit_newlines s)"
proof (induction s rule: limit_newlines.induct)
  case 1
  then show ?case by simp
next
  case (2 c cs)
  let ?run = "takeWhile (\<lambda>x. x = NEWLINE) (c # cs)"
  let ?rest = "dropWhile (\<lambda>x. x = NEWLINE) (c # cs)"
  show ?case
  proof (cases "3 \<le> length ?run")
    case True
    have start: "\<not> prefix (NEWLINE # p) (limit_newlines ?rest)" for p
    proof (cases ?rest)
      case Nil
      show ?thesis unfolding Nil by simp
    next
      case (Cons a as)
      then have "a \<noteq> NEWLINE"
        using hd_dropWhile [of "\<lambda>x. x = NEWLINE" "c # cs"] by auto
      then show ?thesis unfolding Cons by simp
    qed
    from True 2 have inner: "\<not> sublist [NEWLINE, NEWLINE, NEWLINE] (limit_newlines ?rest)"
      by simp
    have "limit_newlines (c # cs) = NEWLINE # NEWLINE # limit_newlines ?rest"
      using True by simp
    moreover have "\<not> sublist [NEWLINE, NEWLINE, NEWLINE]
        (NEWLINE # NEWLINE # limit_newlines ?rest)"
      using start [of "[]"] start [of "[NEWLINE]"] inner by (simp add: sublist_Cons_right)
    ultimately show ?thesis by simp
  next
    case False
    from False 2 have inner: "\<not> sublist [NEWLINE, NEWLINE, NEWLINE] (limit_newlines cs)"
      by simp
    have eq: "limit_newlines (c # cs) = c # limit_newlines cs"
      using False by simp
    have "\<not> prefix [NEWLINE, NEWLINE, NEWLINE] (c # limit_newlines cs)"
    proof (cases "c = NEWLINE")
      case c: False
      then show ?thesis by simp
    next
      case c: True
      show ?thesis
      proof (cases cs)
        case Nil
        then show ?thesis by simp
      next
        case one: (Cons a as)
        show ?thesis
        proof (cases "a = NEWLINE")
          case a: False
          with one show ?thesis by simp
        next
          case a: True
          show ?thesis
          proof (cases as)
            case Nil
            with one a show ?thesis by simp
          next
            case two: (Cons b bs)
            with False c one a have b: "b \<noteq> NEWLINE" by auto
            with one two a show ?thesis by simp
          qed
        qed
      qed
    qed
    with inner eq show ?thesis by (simp add: sublist_Cons_right)
  qed
qed

lemma cleanup_no_asterisk: "ASTERISK \<notin> set (cleanup t)"
proof -
  let ?a = "remove_all ASTERISK (remove_double_asterisks t)"
  let ?b = "strip_line_markers (OneOf [HYPHEN, ASTERISK]) True ?a"
  let ?c = "strip_line_markers Numbered True ?b"
  let ?d = "strip_line_markers (OneOf [HYPHEN, ASTERISK, PLUS]) True ?c"
  have "set (cleanup t) \<subseteq> set (limit_newlines ?d)"
    unfolding cleanup_def by (rule set_trim)
  also have "\<dots> \<subseteq> set ?d" by (rule set_limit_newlines)
  also have "\<dots> \<subseteq> set ?c" by (rule set_strip_line_markers)
  also have "\<dots> \<subseteq> set ?b" by (rule set_strip_line_markers)
  also have "\<dots> \<subseteq> set ?a" by (rule set_strip_line_markers)
  finally have "set (cleanup t) \<subseteq> set ?a" .
  then show ?thesis by (auto simp: set_remove_all)
qed

lemma cleanup_no_triple_newline: "\<not> sublist [NEWLINE, NEWLINE, NEWLINE] (cleanup t)"
proof
  let ?d = "strip_line_markers (OneOf [HYPHEN, ASTERISK, PLUS]) True
     (strip_line_markers Numbered True
     (strip_line_markers (OneOf [HYPHEN, ASTERISK]) True
     (remove_all ASTERISK (remove_double_asterisks t))))"
  assume "sublist [NEWLINE, NEWLINE, NEWLINE] (cleanup t)"
  moreover have "sublist (cleanup t) (limit_newlines ?d)"
    unfolding cleanup_def by (rule sublist_trim)
  ultimately have "sublist [NEWLINE, NEWLINE, NEWLINE] (limit_newlines ?d)"
    by (rule sublist_order.order_trans)
  then show False by (simp add: limit_newlines_no_triple)
qed

lemma cleanup_trimmed:
  "cleanup t = [] \<or> (\<not> is_space (hd (cleanup t)) \<and> \<not> is_space (last (cleanup t)))"
  unfolding cleanup_def using trim_hd trim_last by blast

lemma fallback_text_clean:
  "ASTERISK \<notin> set fallback_text"
  "\<not> sublist [NEWLINE, NEWLINE, NEWLINE] fallback_text"
  "\<not> is_space (hd fallback_text)" "\<not> is_space (last fallback_text)"
proof -
  show "ASTERISK \<notin> set fallback_text" by (simp add: fallback_text_def str_def)
  have "NEWLINE \<notin> set fallback_text" by (simp add: fallback_text_def str_def)
  moreover have "NEWLINE \<in> set s" if "sublist [NEWLINE, NEWLINE, NEWLINE] s" for s :: jsstring
    using that by (auto simp: sublist_def)
  ultimately show "\<not> sublist [NEWLINE, NEWLINE, NEWLINE] fallback_text" by blast
  show "\<not> is_space (hd fallback_text)" "\<not> is_space (last fallback_text)"
    by (simp_all add: fallback_text_def str_def is_space_def)
qed

subsection \<open>formatText\<close>

lemma replace_delimited_fixed:
  assumes "d \<noteq> []" and "hd d \<notin> set s"
  shows "replace_delimited d open_tag close_tag s = s"
  using assms
proof (induction s)
  case Nil
  then show ?case by simp
next
  case (Cons c cs)
  from Cons.prems have "\<not> prefix d (c # cs)"
    by (cases d) (auto simp: prefix_Cons)
  with Cons show ?case by simp
qed

lemma newlines_to_br_fixed: "NEWLINE \<notin> set s \<Longrightarrow> newlines_to_br s = s"
  by (induction s) (auto simp: newlines_to_br_def)

lemma formatText_fixed:
  assumes "ASTERISK \<notin> set s" and "BACKTICK \<notin> set s" and "QUOTE \<notin> set s"
    and "NEWLINE \<notin> set s"
  shows "formatText s = s"
  using assms
  by (simp add: formatText_def replace_delimited_fixed newlines_to_br_fixed)

lemma injected_image_plain:
  "ASTERISK \<notin> set injected_image" "BACKTICK \<notin> set injected_image"
  "QUOTE \<notin> set injected_image" "NEWLINE \<notin> set injected_image"
  by (simp_all add: injected_image_def str_def)

lemma only_defined_tags_append:
  "only_defined_tags a \<Longrightarrow> only_defined_tags b \<Longrightarrow> only_defined_tags (a @ b)"
proof (induction a)
  case Nil
  then show ?case by simp
next
  case (Cons c a)
  have "list_ex (\<lambda>t. prefix t (c # a @ b)) defined_tags"
    if "list_ex (\<lambda>t. prefix t (c # a)) defined_tags"
  proof -
    from that obtain t where "t \<in> set defined_tags" and "prefix t (c # a)"
      by (auto simp: list_ex_iff)
    then have "prefix t ((c # a) @ b)" by (simp only: prefix_prefix)
    with \<open>t \<in> set defined_tags\<close> show ?thesis by (auto simp: list_ex_iff)
  qed
  with Cons show ?case by (auto split: if_splits)
qed

lemma only_defined_tags_suffix:
  "only_defined_tags (a @ b) \<Longrightarrow> only_defined_tags b"
  by (induction a) auto

lemma prefix_cut:
  assumes "prefix t (x @ b)" and "b \<noteq> []" and "hd b \<notin> set t"
  shows "prefix t x"
proof -
  from assms(1) have "prefix t x \<or> (\<exists>u. t = x @ u \<and> prefix u b)"
    by (simp add: prefix_append)
  then show ?thesis
  proof
    assume "prefix t x"
    then show ?thesis .
  next
    assume "\<exists>u. t = x @ u \<and> prefix u b"
    then obtain u where t: "t = x @ u" and u: "prefix u b" by blast
    show ?thesis
    proof (cases u)
      case Nil
      with t show ?thesis by simp
    next
      case (Cons a us)
      with u assms(2) have "hd b = a" by (cases b) auto
      with t Cons assms(3) show ?thesis by simp
    qed
  qed
qed

lemma tag_characters_member:
  "t \<in> set defined_tags \<Longrightarrow> x \<in> set t \<Longrightarrow> x \<in> tag_characters"
  unfolding tag_characters_def by (rule UN_I)

lemma only_defined_tags_cut:
  assumes "only_defined_tags (a @ b)" and "b \<noteq> []" and "hd b \<notin> tag_characters"
  shows "only_defined_tags a"
  using assms(1)
proof (induction a)
  case Nil
  then show ?case by simp
next
  case (Cons c a)
  have "list_ex (\<lambda>t. prefix t (c # a)) defined_tags"
    if "list_ex (\<lambda>t. prefix t (c # a @ b)) defined_tags"
  proof -
    from that obtain t where t: "t \<in> set defined_tags" and p: "prefix t ((c # a) @ b)"
      by (auto simp: list_ex_iff)
    have "hd b \<notin> set t"
    proof
      assume "hd b \<in> set t"
      with t have "hd b \<in> tag_characters" by (rule tag_characters_member)
      with assms(3) show False by simp
    qed
    with p assms(2) have "prefix t (c # a)" by (rule prefix_cut)
    with t show ?thesis by (auto simp: list_ex_iff)
  qed
  with Cons show ?case by (auto split: if_splits)
qed

lemma lazy_until_parts:
  "lazy_until d s = Some (captured, rest) \<Longrightarrow> s = captured @ d @ rest"
proof (induction s arbitrary: captured)
  case Nil
  then show ?case by simp
next
  case (Cons c cs)
  show ?case
  proof (cases "prefix d (c # cs)")
    case True
    with Cons.prems have "captured = []" and "rest = drop (length d) (c # cs)" by auto
    moreover from True have "c # cs = d @ drop (length d) (c # cs)"
      by (metis append_eq_conv_conj prefix_def)
    ultimately show ?thesis by simp
  next
    case False
    with Cons.prems obtain k where k: "lazy_until d cs = Some (k, rest)" and "captured = c # k"
      by (auto split: if_splits option.splits)
    with Cons.IH [OF k] show ?thesis by simp
  qed
qed

lemma replace_delimited_keeps_prefix:
  "hd d \<notin> set t \<Longrightarrow> prefix t s \<Longrightarrow>
   prefix t (replace_delimited d open_tag close_tag s)"
proof (induction t arbitrary: s)
  case Nil
  then show ?case by simp
next
  case (Cons x t)
  from Cons.prems(2) obtain s' where s: "s = x # s'" and p: "prefix t s'"
    by (cases s) auto
  from Cons.prems have "x \<noteq> hd d" and hd: "hd d \<notin> set t" by auto
  then have "\<not> (d \<noteq> [] \<and> prefix d (x # s'))"
    by (cases d) auto
  then have "replace_delimited d open_tag close_tag (x # s')
      = x # replace_delimited d open_tag close_tag s'"
    by auto
  with Cons.IH [OF hd p] s show ?case by simp
qed

lemma replace_delimited_only_defined_tags:
  assumes "d \<noteq> []" and "hd d \<notin> tag_characters"
    and "only_defined_tags open_tag" and "only_defined_tags close_tag"
    and "only_defined_tags s"
  shows "only_defined_tags (replace_delimited d open_tag close_tag s)"
  using assms
proof (induction d open_tag close_tag s rule: replace_delimited.induct)
  case (1 d open_tag close_tag)
  then show ?case by simp
next
  case (2 d open_tag close_tag c cs)
  let ?found = "if d \<noteq> [] \<and> prefix d (c # cs)
                then lazy_until d (drop (length d) (c # cs)) else None"
  note tags = \<open>only_defined_tags (c # cs)\<close>
  show ?case
  proof (cases ?found)
    case None
    from tags have "only_defined_tags cs" by simp
    with None "2.prems" have rest: "only_defined_tags (replace_delimited d open_tag close_tag cs)"
      by (intro "2.IH"(1)) simp_all
    from None have step: "replace_delimited d open_tag close_tag (c # cs)
        = c # replace_delimited d open_tag close_tag cs"
      by simp
    have "list_ex (\<lambda>t. prefix t (c # replace_delimited d open_tag close_tag cs)) defined_tags"
      if "c = LESS_THAN"
    proof -
      from tags that obtain t where t: "t \<in> set defined_tags" and p: "prefix t (c # cs)"
        by (auto simp: list_ex_iff)
      have "hd d \<notin> set t"
      proof
        assume "hd d \<in> set t"
        with t have "hd d \<in> tag_characters" by (rule tag_characters_member)
        with "2.prems"(2) show False by simp
      qed
      from this p have "prefix t (replace_delimited d open_tag close_tag (c # cs))"
        by (rule replace_delimited_keeps_prefix)
      with t step show ?thesis by (auto simp: list_ex_iff)
    qed
    with rest step show ?thesis by simp
  next
    case (Some found)
    obtain captured rest where found: "found = (captured, rest)" by (cases found)
    with Some have d: "d \<noteq> []" and pre: "prefix d (c # cs)"
      and l: "lazy_until d (drop (length d) (c # cs)) = Some (captured, rest)"
      by (auto split: if_splits)
    from pre have "c # cs = d @ drop (length d) (c # cs)"
      by (metis append_eq_conv_conj prefix_def)
    with lazy_until_parts [OF l] have whole: "c # cs = d @ captured @ d @ rest" by simp
    with tags have "only_defined_tags (d @ captured @ d @ rest)" by simp
    then have inner: "only_defined_tags (captured @ d @ rest)"
      by (rule only_defined_tags_suffix)
    then have "only_defined_tags (d @ rest)"
      by (rule only_defined_tags_suffix)
    then have r: "only_defined_tags rest"
      by (rule only_defined_tags_suffix)
    from d "2.prems"(2) have "d @ rest \<noteq> []" and "hd (d @ rest) \<notin> tag_characters"
      by simp_all
    with inner have cap: "only_defined_tags captured"
      by (rule only_defined_tags_cut)
    have "only_defined_tags (replace_delimited d open_tag close_tag rest)"
      using Some found [symmetric] "2.prems"(1-4) r by (rule "2.IH"(2))
    with "2.prems"(3,4) cap
    have "only_defined_tags
        (open_tag @ captured @ close_tag @ replace_delimited d open_tag close_tag rest)"
      by (intro only_defined_tags_append)
    with Some found show ?thesis by simp
  qed
qed

lemma newlines_to_br_keeps_prefix:
  "NEWLINE \<notin> set t \<Longrightarrow> prefix t s \<Longrightarrow> prefix t (newlines_to_br s)"
proof (induction t arbitrary: s)
  case Nil
  then show ?case by simp
next
  case (Cons x t)
  from Cons.prems(2) obtain s' where s: "s = x # s'" and p: "prefix t s'"
    by (cases s) auto
  from Cons.prems(1) have "x \<noteq> NEWLINE" and nl: "NEWLINE \<notin> set t" by auto
  with Cons.IH [OF nl p] s show ?case by (simp add: newlines_to_br_def)
qed

lemma defined_tags_plain:
  "t \<in> set defined_tags \<Longrightarrow> NEWLINE \<notin> set t"
  by (auto simp: defined_tags_def str_def)

lemma br_defined: "only_defined_tags (str ''<br>'')"
  by (simp add: defined_tags_def str_def)

lemma newlines_to_br_only_defined_tags:
  "only_defined_tags s \<Longrightarrow> only_defined_tags (newlines_to_br s)"
proof (induction s)
  case Nil
  then show ?case by (simp add: newlines_to_br_def)
next
  case (Cons c cs)
  then have rest: "only_defined_tags (newlines_to_br cs)" by simp
  show ?case
  proof (cases "c = NEWLINE")
    case True
    then have "newlines_to_br (c # cs) = str ''<br>'' @ newlines_to_br cs"
      by (simp add: newlines_to_br_def)
    with br_defined rest show ?thesis by (simp only: only_defined_tags_append)
  next
    case False
    then have step: "newlines_to_br (c # cs) = c # newlines_to_br cs"
      by (simp add: newlines_to_br_def)
    have "list_ex (\<lambda>t. prefix t (c # newlines_to_br cs)) defined_tags" if "c = LESS_THAN"
    proof -
      from Cons.prems that obtain t where t: "t \<in> set defined_tags" and p: "prefix t (c # cs)"
        by (auto simp: list_ex_iff)
      from defined_tags_plain [OF t] p have "prefix t (newlines_to_br (c # cs))"
        by (rule newlines_to_br_keeps_prefix)
      with t step show ?thesis by (auto simp: list_ex_iff)
    qed
    with rest step show ?thesis by simp
  qed
qed

lemma delimiters_not_in_tags:
  "ASTERISK \<notin> tag_characters" "BACKTICK \<notin> tag_characters" "QUOTE \<notin> tag_characters"
  by (simp_all add: tag_characters_def defined_tags_def str_def)

lemma wrappers_defined:
  "only_defined_tags (str ''<strong>'')" "only_defined_tags (str ''</strong>'')"
  "only_defined_tags (str ''<em>'')" "only_defined_tags (str ''</em>'')"
  "only_defined_tags (str ''<code>'')" "only_defined_tags (str ''</code>'')"
  "only_defined_tags (str ''<strong>'' @ [QUOTE])" "only_defined_tags (QUOTE # str ''</strong>'')"
  by (simp_all add: defined_tags_def str_def)

lemma formatText_only_defined_tags:
  assumes "only_defined_tags s"
  shows "only_defined_tags (formatText s)"
proof (cases "s = []")
  case True
  then show ?thesis by (simp add: formatText_def)
next
  case False
  let ?a = "replace_delimited [ASTERISK, ASTERISK] (str ''<strong>'') (str ''</strong>'') s"
  let ?b = "replace_delimited [ASTERISK] (str ''<em>'') (str ''</em>'') ?a"
  let ?c = "replace_delimited [BACKTICK] (str ''<code>'') (str ''</code>'') ?b"
  let ?d = "replace_delimited [QUOTE] (str ''<strong>'' @ [QUOTE]) (QUOTE # str ''</strong>'') ?c"
  have "only_defined_tags ?a"
    by (rule replace_delimited_only_defined_tags)
      (simp_all add: delimiters_not_in_tags wrappers_defined assms)
  then have "only_defined_tags ?b"
    by (rule replace_delimited_only_defined_tags [rotated 4])
      (simp_all add: delimiters_not_in_tags wrappers_defined)
  then have "only_defined_tags ?c"
    by (rule replace_delimited_only_defined_tags [rotated 4])
      (simp_all add: delimiters_not_in_tags wrappers_defined)
  then have "only_defined_tags ?d"
    by (rule replace_delimited_only_defined_tags [rotated 4])
      (simp_all add: delimiters_not_in_tags wrappers_defined)
  then have "only_defined_tags (newlines_to_br ?d)"
    by (rule newlines_to_br_only_defined_tags)
  with False show ?thesis by (simp add: formatText_def)
qed

lemma no_less_than_only_defined_tags:
  "LESS_THAN \<notin> set s \<Longrightarrow> only_defined_tags s"
  by (induction s) auto

section \<open>The two parts of the handler\<close>

lemma handleSendMessage_start_accepts:
  "trim (input s) \<noteq> [] \<Longrightarrow> \<not> isTyping s \<Longrightarrow>
   handleSendMessage_start now s =
     s\<lparr>messages :=
         messages s @ [\<lparr>text' = JStr (input s), sender = User, error = False, id' = now\<rparr>],
       input := [], isTyping := True,
       fetched := fetched s @
         [\<lparr>url = apiUrl (apiKey s), http_method = str ''POST'',
           contents = chatHistory
             (messages s
              @ [\<lparr>text' = JStr (input s), sender = User, error = False, id' = now\<rparr>])\<rparr>]\<rparr>"
  by (simp add: handleSendMessage_start_def Let_def)

lemma try_block_fetched: "fetched (snd (try_block v rt fr now s)) = fetched s"
  by (auto simp: try_block_def speak_def Let_def split: sum.splits)

lemma handleSendMessage_resume_fetched:
  "fetched (handleSendMessage_resume v rt fr now s) = fetched s"
  using try_block_fetched [of v rt fr now s]
  by (auto simp: handleSendMessage_resume_def catch_block_def Let_def
      split: prod.splits option.splits)

lemma handleSendMessage_resume_isTyping:
  "\<not> isTyping (handleSendMessage_resume v rt fr now s)"
  by (auto simp: handleSendMessage_resume_def split: prod.splits option.splits)

lemma property_names_differ:
  "str ''length'' \<noteq> str ''0''" "str ''candidates'' \<noteq> str ''length''"
  "str ''candidates'' \<noteq> str ''0''" "str ''content'' \<noteq> str ''length''"
  "str ''content'' \<noteq> str ''0''" "str ''parts'' \<noteq> str ''length''"
  "str ''parts'' \<noteq> str ''0''" "str ''0'' \<noteq> str ''length''"
  by (simp_all add: str_def)

lemma trim_Hello: "trim (str ''Hello'') = str ''Hello''"
  by (simp add: trim_def is_space_def str_def)

lemma failed_throws: "failed fr \<Longrightarrow> \<exists>e. aiResponseText v rt fr = Inl e"
proof (cases fr)
  case (Rejected e)
  then show ?thesis by (simp add: aiResponseText_def)
next
  case (Resolved r)
  assume "failed fr"
  with Resolved show ?thesis
    by (cases "json r") (auto simp: aiResponseText_def and_then_def split: if_splits)
qed

lemma resume_after_throw:
  "aiResponseText v rt fr = Inl e \<Longrightarrow>
   handleSendMessage_resume v rt fr now s =
     s\<lparr>messages := messages s @
          [\<lparr>text' = JStr (case v of
                           V1 \<Rightarrow> str ''Sorry, something went wrong: '' @ message e
                         | V2 \<Rightarrow> str ''Sorry, an error occurred. Please try again.''),
            sender = Ai, error = True, id' = now + 1\<rparr>],
        console := console s @ [e], isTyping := False\<rparr>"
  by (simp add: handleSendMessage_resume_def try_block_def catch_block_def)

text \<open>
  In the second variant the text of a turn that did not throw is a string, so the
  \<^verbatim>\<open>trim()\<close> after the message is appended cannot throw.
\<close>

lemma aiResponseText_V2_string:
  assumes "aiResponseText V2 rt fr = Inr t"
  shows "t = JStr fallback_text \<or> (\<exists>raw. t = JStr (cleanup raw))"
proof (cases fr)
  case (Rejected e)
  with assms show ?thesis by (simp add: aiResponseText_def)
next
  case (Resolved r)
  with assms show ?thesis
    by (auto simp: aiResponseText_def and_then_def call_cleanup_def
        split: if_splits sum.splits jsval.splits)
qed

lemma resume_after_string:
  "aiResponseText v rt fr = Inr (JStr t) \<Longrightarrow>
   messages (handleSendMessage_resume v rt fr now s)
     = messages s @ [\<lparr>text' = JStr t, sender = Ai, error = False, id' = now + 1\<rparr>]"
  by (simp add: handleSendMessage_resume_def try_block_def call_trim_def speak_def Let_def)

lemma second_variant_resume_appends_one:
  "\<exists>m. messages (handleSendMessage_resume V2 rt fr now s) = messages s @ [m] \<and> sender m = Ai"
proof (cases "aiResponseText V2 rt fr")
  case (Inl e)
  then show ?thesis by (simp add: resume_after_throw)
next
  case (Inr t)
  with aiResponseText_V2_string [OF Inr] obtain c where "aiResponseText V2 rt fr = Inr (JStr c)"
    by auto
  then show ?thesis by (simp add: resume_after_string)
qed

text \<open>
  In the second variant a turn appends the user's message and one message of the
  assistant, whatever \<^verbatim>\<open>fetch\<close> settles to.
\<close>

lemma second_variant_turn_appends_two:
  assumes "trim (input s) \<noteq> []" and "\<not> isTyping s"
  shows "\<exists>m. messages (handleSendMessage V2 rt now fr later s)
               = messages s
                 @ [\<lparr>text' = JStr (input s), sender = User, error = False, id' = now\<rparr>, m]
             \<and> sender m = Ai"
proof -
  from second_variant_resume_appends_one [of rt fr later "handleSendMessage_start now s"]
  obtain m where "messages (handleSendMessage_resume V2 rt fr later (handleSendMessage_start now s))
      = messages (handleSendMessage_start now s) @ [m]" and "sender m = Ai"
    by blast
  with assms show ?thesis
    by (simp add: handleSendMessage_def handleSendMessage_start_accepts)
qed

text \<open>
  So does the first variant when voice output is off: nothing of the
  \<^verbatim>\<open>try\<close> block can throw once the message is appended.
\<close>

lemma first_variant_turn_appends_two_without_voice:
  assumes "trim (input s) \<noteq> []" and "\<not> isTyping s" and "\<not> voiceOutput s"
  shows "\<exists>m. messages (handleSendMessage V1 rt now fr later s)
               = messages s
                 @ [\<lparr>text' = JStr (input s), sender = User, error = False, id' = now\<rparr>, m]
             \<and> sender m = Ai"
proof -
  let ?s = "handleSendMessage_start now s"
  from assms have v: "\<not> voiceOutput ?s"
    by (simp add: handleSendMessage_start_accepts)
  have "\<exists>m. messages (handleSendMessage_resume V1 rt fr later ?s) = messages ?s @ [m]
          \<and> sender m = Ai"
  proof (cases "aiResponseText V1 rt fr")
    case (Inl e)
    then show ?thesis by (simp add: resume_after_throw)
  next
    case (Inr t)
    with v show ?thesis
      by (simp add: handleSendMessage_resume_def try_block_def Let_def)
  qed
  with assms show ?thesis
    by (auto simp: handleSendMessage_def handleSendMessage_start_accepts)
qed

section \<open>C1: the messages a turn appends\<close>

text \<open>
  C1 says that a completed turn appends exactly two messages: the user's, carrying the
  input, and one of the assistant. The second variant does
  (\<open>second_variant_turn_appends_two\<close>), and the first does while voice output is
  off (\<open>first_variant_turn_appends_two_without_voice\<close>). With voice output on, as
  it is from the start, the first variant does not: when the response
  holds a part without \<^verbatim>\<open>text\<close> and voice output is on, the message of the
  assistant is appended with the text \<^verbatim>\<open>undefined\<close>, then
  \<^verbatim>\<open>aiResponseText.trim()\<close> throws, and the \<^verbatim>\<open>catch\<close> block appends an
  error message as well: the turn appends three messages.
\<close>

theorem turn_appends_three_messages:
  "messages (handleSendMessage V1 rt 0 part_without_text 1 hello)
     = messages hello
       @ [\<lparr>text' = JStr (str ''Hello''), sender = User, error = False, id' = 0\<rparr>,
          \<lparr>text' = JUndefined, sender = Ai, error = False, id' = 2\<rparr>,
          \<lparr>text' = JStr (str ''Sorry, something went wrong: ''
                          @ type_error_message rt JUndefined (str ''trim'')),
            sender = Ai, error = True, id' = 2\<rparr>]"
  by (simp add: handleSendMessage_def handleSendMessage_start_def handleSendMessage_resume_def
        hello_def trim_def is_space_def str_def try_block_def aiResponseText_def
        part_without_text_def and_then_def has_generated_text_def call_trim_def catch_block_def
        Let_def)

section \<open>C2: the guard\<close>

text \<open>
  C2: a call with an input that is empty or white space only, or made while a request
  is in flight (\<open>isTyping\<close>), returns at once and leaves the state as it is: the
  history, the flag and the calls of \<^verbatim>\<open>fetch\<close> issued. After the first part of
  an accepted call the flag is set, so a second call is such a call, whatever was typed
  in between: it is dropped.
\<close>

theorem guard_returns_without_effect:
  "(trim (input s) = [] \<or> isTyping s \<longrightarrow>
      handleSendMessage_start now s = s \<and> handleSendMessage v rt now fr later s = s)
   \<and> (trim (input s) \<noteq> [] \<and> \<not> isTyping s \<longrightarrow>
      isTyping (handleSendMessage_start now s)
      \<and> handleSendMessage_start now' ((handleSendMessage_start now s)\<lparr>input := x\<rparr>)
          = (handleSendMessage_start now s)\<lparr>input := x\<rparr>)"
  by (simp add: handleSendMessage_start_def handleSendMessage_def Let_def)

theorem guard_returns_without_effect_witness:
  "trim (input (hello\<lparr>input := str ''   ''\<rparr>)) = []
   \<and> handleSendMessage_start 0 (hello\<lparr>input := str ''   ''\<rparr>) = hello\<lparr>input := str ''   ''\<rparr>
   \<and> handleSendMessage V2 sample_engine 0 network_down 1 (hello\<lparr>input := str ''   ''\<rparr>)
        = hello\<lparr>input := str ''   ''\<rparr>
   \<and> trim (input hello) \<noteq> [] \<and> \<not> isTyping hello
   \<and> isTyping (handleSendMessage_start 0 hello)
   \<and> handleSendMessage_start 1 ((handleSendMessage_start 0 hello)\<lparr>input := str ''B''\<rparr>)
        = (handleSendMessage_start 0 hello)\<lparr>input := str ''B''\<rparr>"
proof -
  have blank: "trim (input (hello\<lparr>input := str ''   ''\<rparr>)) = []"
    by (simp add: trim_def is_space_def str_def)
  have valid: "trim (input hello) \<noteq> [] \<and> \<not> isTyping hello"
    by (simp add: hello_def trim_Hello) (simp add: str_def)
  show ?thesis
    using blank valid
      guard_returns_without_effect
        [of "hello\<lparr>input := str ''   ''\<rparr>" 0 V2 sample_engine network_down 1]
      guard_returns_without_effect [of hello 0 V2 sample_engine network_down 1 1 "str ''B''"]
    by simp
qed

section \<open>C3: the message of a failed turn\<close>

text \<open>
  C3 says that the message appended when a turn fails has a fixed text, in which no
  detail of the failure appears. In the first variant the text ends with the message
  of the error: a refused key and a network failure give different texts, each with
  the detail in it.
\<close>

theorem error_text_leaks_detail_counterexample:
  "failed key_refused \<and> failed network_down
   \<and> text' (last (messages (handleSendMessage_resume V1 sample_engine key_refused 1
                             (handleSendMessage_start 0 hello))))
       = JStr (str ''Sorry, something went wrong: API key not valid. Please pass a valid API key.'')
   \<and> text' (last (messages (handleSendMessage_resume V1 sample_engine network_down 1
                             (handleSendMessage_start 0 hello))))
       = JStr (str ''Sorry, something went wrong: Failed to fetch'')"
  by (simp add: handleSendMessage_resume_def try_block_def catch_block_def aiResponseText_def
        key_refused_def network_down_def and_then_def api_error_def str_def)

text \<open>
  C3, amended: a failed exchange makes the \<^verbatim>\<open>try\<close> block throw, and when it
  throws before a text is there, exactly one message is appended: of the assistant,
  flagged as an error, with the fixed text
  \<^verbatim>\<open>Sorry, an error occurred. Please try again.\<close> in the second variant, and with
  \<^verbatim>\<open>Sorry, something went wrong: \<close> followed by the message of the error thrown in
  the first.
\<close>

theorem failed_turn_appends_error_message:
  "(failed fr \<longrightarrow> (\<exists>e. aiResponseText v rt fr = Inl e))
   \<and> (aiResponseText v rt fr = Inl e \<longrightarrow>
        messages (handleSendMessage_resume v rt fr now s)
          = messages s @
            [\<lparr>text' = JStr (case v of
                             V1 \<Rightarrow> str ''Sorry, something went wrong: '' @ message e
                           | V2 \<Rightarrow> str ''Sorry, an error occurred. Please try again.''),
              sender = Ai, error = True, id' = now + 1\<rparr>])"
  by (simp add: failed_throws resume_after_throw)

lemma key_refused_V2:
  "aiResponseText V2 sample_engine key_refused
     = Inl (Error (str ''An error occurred. Please try again.''))"
  by (simp add: aiResponseText_def key_refused_def and_then_def api_error_def)

theorem failed_turn_appends_error_message_witness:
  "failed key_refused
   \<and> aiResponseText V2 sample_engine key_refused
       = Inl (Error (str ''An error occurred. Please try again.''))
   \<and> messages (handleSendMessage_resume V2 sample_engine key_refused 1
                 (handleSendMessage_start 0 hello))
       = [\<lparr>text' = JStr (str ''Hello''), sender = User, error = False, id' = 0\<rparr>,
          \<lparr>text' = JStr (str ''Sorry, an error occurred. Please try again.''),
            sender = Ai, error = True, id' = 2\<rparr>]"
proof -
  have f: "failed key_refused" by (simp add: key_refused_def)
  have m: "messages (handleSendMessage_start 0 hello)
      = [\<lparr>text' = JStr (str ''Hello''), sender = User, error = False, id' = 0\<rparr>]"
    by (simp add: handleSendMessage_start_def hello_def trim_Hello Let_def) (simp add: str_def)
  show ?thesis
    using f m key_refused_V2
      failed_turn_appends_error_message [of key_refused V2 sample_engine
        "Error (str ''An error occurred. Please try again.'')" 1 "handleSendMessage_start 0 hello"]
    by simp
qed

section \<open>C4: a call without a credential\<close>

text \<open>
  C4 says that a call made when no credential is available fails before any network
  call and leaves the history as it is. The handler never looks at \<open>apiKey\<close> before
  it sends: with the empty key of a session that has none, the user's message is
  appended and \<^verbatim>\<open>fetch\<close> is called, the address ending in \<^verbatim>\<open>key=\<close>.
\<close>

theorem no_credential_check_counterexample:
  "apiKey hello_without_key = []
   \<and> trim (input hello_without_key) \<noteq> [] \<and> \<not> isTyping hello_without_key
   \<and> messages hello_without_key = []
   \<and> fetched hello_without_key = []
   \<and> messages (handleSendMessage_start 0 hello_without_key)
       = [\<lparr>text' = JStr (str ''Hello''), sender = User, error = False, id' = 0\<rparr>]
   \<and> map url (fetched (handleSendMessage_start 0 hello_without_key)) = [apiUrl []]"
  by (simp add: hello_without_key_def hello_def handleSendMessage_start_def Let_def trim_Hello)
     (simp add: str_def)

text \<open>
  C4, amended: a call with an input that is not blank, made while no request is in
  flight and \<open>apiKey\<close> is empty, is not refused: it appends the user's message, sets
  the flag and issues the network call, with the empty key in its address.
\<close>

theorem submit_without_credential:
  assumes "apiKey s = []" and "trim (input s) \<noteq> []" and "\<not> isTyping s"
  shows "messages (handleSendMessage_start now s)
           = messages s @ [\<lparr>text' = JStr (input s), sender = User, error = False, id' = now\<rparr>]
         \<and> isTyping (handleSendMessage_start now s)
         \<and> map url (fetched (handleSendMessage_start now s)) = map url (fetched s) @ [apiUrl []]"
  using assms by (simp add: handleSendMessage_start_accepts)

theorem submit_without_credential_witness:
  "apiKey hello_without_key = []
   \<and> trim (input hello_without_key) \<noteq> [] \<and> \<not> isTyping hello_without_key
   \<and> messages (handleSendMessage_start 7 hello_without_key)
       = [\<lparr>text' = JStr (str ''Hello''), sender = User, error = False, id' = 7\<rparr>]
   \<and> isTyping (handleSendMessage_start 7 hello_without_key)
   \<and> map url (fetched (handleSendMessage_start 7 hello_without_key)) = [apiUrl []]"
proof -
  have pre: "apiKey hello_without_key = []" "trim (input hello_without_key) \<noteq> []"
    "\<not> isTyping hello_without_key"
    by (simp_all add: hello_without_key_def hello_def trim_def is_space_def str_def)
  show ?thesis
    using pre submit_without_credential [OF pre, of 7]
    by (simp add: hello_without_key_def hello_def)
qed

section \<open>C5: markup in the text displayed\<close>

text \<open>
  C5 says that the output of the display transform holds no tags but those the
  transform writes, and that markup present in its input is shown as text.
  \<open>formatText\<close> escapes nothing: the image tag comes out as it went in, and it is not
  one of the tags of the transform.
\<close>

theorem formatText_emits_input_markup_counterexample:
  "formatText injected_image = injected_image
   \<and> \<not> only_defined_tags (formatText injected_image)"
proof -
  have same: "formatText injected_image = injected_image"
    using injected_image_plain by (rule formatText_fixed)
  have "\<not> only_defined_tags injected_image"
    by (simp add: injected_image_def defined_tags_def str_def)
  with same show ?thesis by simp
qed

text \<open>
  C5, amended: the display transform adds no tags but its own and escapes nothing.
  When every \<^verbatim>\<open><\<close> of the input opens one of the transform's tags (so when
  the input has none), every \<^verbatim>\<open><\<close> of the output does. An input with no
  asterisk, backtick, double quote or line feed comes out unchanged, so markup present
  in it is part of the output as markup.
\<close>

theorem formatText_adds_own_tags_escapes_nothing:
  "(only_defined_tags s \<longrightarrow> only_defined_tags (formatText s))
   \<and> (LESS_THAN \<notin> set s \<longrightarrow> only_defined_tags (formatText s))
   \<and> (ASTERISK \<notin> set s \<and> BACKTICK \<notin> set s \<and> QUOTE \<notin> set s \<and> NEWLINE \<notin> set s
        \<longrightarrow> formatText s = s)"
  by (simp add: formatText_only_defined_tags no_less_than_only_defined_tags formatText_fixed)

theorem formatText_adds_own_tags_escapes_nothing_witness:
  "only_defined_tags (str ''**Hi** there'') \<and> LESS_THAN \<notin> set (str ''**Hi** there'')
   \<and> formatText (str ''**Hi** there'') = str ''<strong>Hi</strong> there''
   \<and> only_defined_tags (formatText (str ''**Hi** there''))
   \<and> ASTERISK \<notin> set injected_image \<and> BACKTICK \<notin> set injected_image
   \<and> QUOTE \<notin> set injected_image \<and> NEWLINE \<notin> set injected_image
   \<and> formatText injected_image = str ''<img src=x onerror=alert(1)>''"
proof -
  have plain: "only_defined_tags (str ''**Hi** there'')"
    "LESS_THAN \<notin> set (str ''**Hi** there'')"
    by (simp_all add: str_def)
  have bold: "formatText (str ''**Hi** there'') = str ''<strong>Hi</strong> there''"
    by (simp add: formatText_def newlines_to_br_def is_line_terminator_def str_def)
  show ?thesis
    using plain bold injected_image_plain
      formatText_adds_own_tags_escapes_nothing [of "str ''**Hi** there''"]
      formatText_adds_own_tags_escapes_nothing [of injected_image]
    by (simp add: injected_image_def)
qed

section \<open>C6: the text for speech\<close>

text \<open>
  C6: the transform of the text handed to speech synthesis is idempotent: applied
  to its own result, \<open>cleanText\<close> gives that result back.
\<close>

theorem cleanText_idempotent: "cleanText (cleanText x) = cleanText x"
proof -
  let ?y = "cleanText x"
  have star: "ASTERISK \<notin> set ?y" and tick: "BACKTICK \<notin> set ?y"
    using cleanText_set [of x] by auto
  have nl: "NEWLINE \<notin> set ?y"
    using cleanText_only_space [of NEWLINE x] by (auto simp: is_space_simps)
  have 1: "strip_tags ?y = ?y"
    by (rule strip_tags_fixed) (rule cleanText_no_tag)
  have 2: "remove_double_asterisks ?y = ?y"
    using star by (rule remove_double_asterisks_fixed)
  have 3: "remove_all ASTERISK ?y = ?y"
    using star by (rule remove_all_fixed)
  have 4: "remove_all BACKTICK ?y = ?y"
    using tick by (rule remove_all_fixed)
  have 5: "newlines_to_spaces ?y = ?y"
    using nl by (rule newlines_to_spaces_fixed)
  have 6: "collapse_spaces ?y = ?y"
    by (rule collapse_spaces_fixed) (auto simp: cleanText_only_space cleanText_no_double)
  have 7: "trim ?y = ?y"
    unfolding cleanText_def by (rule trim_trim)
  have "cleanText ?y = trim (collapse_spaces (newlines_to_spaces (remove_all BACKTICK
      (remove_all ASTERISK (remove_double_asterisks (strip_tags ?y))))))"
    by (simp only: cleanText_def)
  also have "\<dots> = ?y"
    by (simp only: 1 2 3 4 5 6 7)
  finally show ?thesis .
qed

section \<open>C7: the transcript sent\<close>

text \<open>
  C7: an accepted call appends the user's message and issues one network call, whose
  contents are the whole history, the new message included, in order: each message
  gives one entry with its text, with the role \<^verbatim>\<open>user\<close> for a message of the user
  and \<^verbatim>\<open>model\<close> for one of the assistant. The rest of the turn issues no other
  call.
\<close>

theorem transcript_is_whole_history:
  assumes "trim (input s) \<noteq> []" and "\<not> isTyping s"
  shows "messages (handleSendMessage_start now s)
           = messages s @ [\<lparr>text' = JStr (input s), sender = User, error = False, id' = now\<rparr>]
         \<and> fetched (handleSendMessage_start now s)
           = fetched s @
             [\<lparr>url = apiUrl (apiKey s), http_method = str ''POST'',
               contents =
                 map (\<lambda>m. \<lparr>role = (case sender m of User \<Rightarrow> str ''user'' | Ai \<Rightarrow> str ''model''),
                           parts = [text' m]\<rparr>)
                   (messages (handleSendMessage_start now s))\<rparr>]
         \<and> fetched (handleSendMessage v rt now fr later s)
           = fetched (handleSendMessage_start now s)"
proof -
  have role: "(if sender m = User then str ''user'' else str ''model'')
      = (case sender m of User \<Rightarrow> str ''user'' | Ai \<Rightarrow> str ''model'')" for m :: message
    by (cases "sender m") simp_all
  show ?thesis
    using assms
    by (simp add: handleSendMessage_start_accepts handleSendMessage_def
        handleSendMessage_resume_fetched chatHistory_def role)
qed

theorem transcript_is_whole_history_witness:
  "trim (input mid_conversation) \<noteq> [] \<and> \<not> isTyping mid_conversation
   \<and> map contents (fetched (handleSendMessage_start 5 mid_conversation))
     = [[\<lparr>role = str ''user'', parts = [JStr (str ''Hi'')]\<rparr>,
         \<lparr>role = str ''model'', parts = [JStr (str ''Hello!'')]\<rparr>,
         \<lparr>role = str ''user'', parts = [JStr (str ''How are you?'')]\<rparr>]]"
proof -
  have valid: "trim (input mid_conversation) \<noteq> []" "\<not> isTyping mid_conversation"
    by (simp_all add: mid_conversation_def hello_def trim_def is_space_def str_def)
  show ?thesis
    using valid transcript_is_whole_history [OF valid, of 5 V2 sample_engine network_down 6]
    by (simp add: mid_conversation_def hello_def)
qed

section \<open>C8: a response without a generated text\<close>

lemma no_generated_fragment_guard:
  assumes "no_generated_fragment body"
  shows "has_generated_text rt body = Inr False"
proof -
  from assms obtain kvs where body: "body = JObj kvs" by (cases body) auto
  show ?thesis
  proof (cases "map_of kvs (str ''candidates'')")
    case None
    with body show ?thesis by (simp add: has_generated_text_def and_then_def)
  next
    case (Some cands)
    show ?thesis
    proof (cases cands)
      case JNull
      with body Some show ?thesis by (simp add: has_generated_text_def and_then_def)
    next
      case (JArr cs)
      show ?thesis
      proof (cases cs)
        case Nil
        with body Some JArr show ?thesis by (simp add: has_generated_text_def and_then_def)
      next
        case (Cons c rest)
        with assms body Some JArr have nc: "no_content c" by simp
        then obtain ckvs where c: "c = JObj ckvs" by (cases c) auto
        show ?thesis
        proof (cases "map_of ckvs (str ''content'')")
          case None
          with body Some JArr Cons c show ?thesis
            by (simp add: has_generated_text_def and_then_def)
        next
          case inner: (Some ct)
          show ?thesis
          proof (cases "ct = JNull")
            case True
            with body Some JArr Cons c inner show ?thesis
              by (simp add: has_generated_text_def and_then_def)
          next
            case False
            with nc c inner have np: "no_parts ct" by (cases ct) auto
            then obtain tkvs where ct: "ct = JObj tkvs" by (cases ct) auto
            from np ct have
              "map_of tkvs (str ''parts'') = None \<or> map_of tkvs (str ''parts'') = Some JNull
               \<or> map_of tkvs (str ''parts'') = Some (JArr [])"
              by (auto split: option.splits jsval.splits list.splits)
            with body Some JArr Cons c inner ct show ?thesis
              by (auto simp: has_generated_text_def and_then_def)
          qed
        qed
      qed
    qed (use assms body Some in auto)
  qed
qed

text \<open>
  C8: when the response is a success and its parsed body holds no generated text (no
  candidates, no content or no parts), the turn does not fail: the message appended is
  the assistant's, with the fixed apology as its text, and it is not flagged as an
  error. This holds in both variants.
\<close>

theorem missing_fragment_gives_fallback:
  assumes "ok r" and "json r = Inr body" and "no_generated_fragment body"
  shows "messages (handleSendMessage_resume v rt (Resolved r) now s)
           = messages s
             @ [\<lparr>text' = JStr (str ''I'm sorry, I couldn't generate a response. Please try again.''),
                 sender = Ai, error = False, id' = now + 1\<rparr>]"
proof -
  have "aiResponseText v rt (Resolved r) = Inr (JStr fallback_text)"
    using assms by (simp add: aiResponseText_def and_then_def no_generated_fragment_guard)
  then show ?thesis
    by (simp add: resume_after_string) (simp add: fallback_text_def)
qed

theorem missing_fragment_gives_fallback_witness:
  "ok blocked_candidate
   \<and> json blocked_candidate
       = Inr (JObj [(str ''candidates'',
               JArr [JObj [(str ''finishReason'', JStr (str ''SAFETY'')),
                           (str ''index'', JNum 0)]])])
   \<and> no_generated_fragment
       (JObj [(str ''candidates'',
          JArr [JObj [(str ''finishReason'', JStr (str ''SAFETY'')), (str ''index'', JNum 0)]])])
   \<and> messages (handleSendMessage_resume V1 sample_engine (Resolved blocked_candidate) 1
                 (handleSendMessage_start 0 hello))
       = [\<lparr>text' = JStr (str ''Hello''), sender = User, error = False, id' = 0\<rparr>,
          \<lparr>text' = JStr (str ''I'm sorry, I couldn't generate a response. Please try again.''),
            sender = Ai, error = False, id' = 2\<rparr>]"
proof -
  have pre: "ok blocked_candidate"
    "json blocked_candidate
       = Inr (JObj [(str ''candidates'',
               JArr [JObj [(str ''finishReason'', JStr (str ''SAFETY'')),
                           (str ''index'', JNum 0)]])])"
    "no_generated_fragment
       (JObj [(str ''candidates'',
          JArr [JObj [(str ''finishReason'', JStr (str ''SAFETY'')), (str ''index'', JNum 0)]])])"
    by (simp_all add: blocked_candidate_def) (simp add: str_def)
  have m: "messages (handleSendMessage_start 0 hello)
      = [\<lparr>text' = JStr (str ''Hello''), sender = User, error = False, id' = 0\<rparr>]"
    by (simp add: handleSendMessage_start_def hello_def trim_Hello Let_def) (simp add: str_def)
  show ?thesis
    using pre m
      missing_fragment_gives_fallback [OF pre, of V1 sample_engine 1 "handleSendMessage_start 0 hello"]
    by simp
qed

section \<open>C9: the flag after a turn\<close>

text \<open>
  C9: when the second part of the handler has run, whatever \<^verbatim>\<open>fetch\<close> settled to
  and whether or not the \<^verbatim>\<open>try\<close> block threw, \<open>isTyping\<close> is false again; a new
  input that is not blank is then accepted: its message is appended and a network call
  is issued.
\<close>

theorem finally_resets_isTyping:
  "\<not> isTyping (handleSendMessage_resume v rt fr now s)
   \<and> (trim x \<noteq> [] \<longrightarrow>
        messages (handleSendMessage_start now'
                   ((handleSendMessage_resume v rt fr now s)\<lparr>input := x\<rparr>))
          = messages (handleSendMessage_resume v rt fr now s)
            @ [\<lparr>text' = JStr x, sender = User, error = False, id' = now'\<rparr>]
        \<and> length (fetched (handleSendMessage_start now'
                            ((handleSendMessage_resume v rt fr now s)\<lparr>input := x\<rparr>)))
          = length (fetched (handleSendMessage_resume v rt fr now s)) + 1)"
  by (simp add: handleSendMessage_resume_isTyping handleSendMessage_start_accepts)

theorem finally_resets_isTyping_witness:
  "\<not> isTyping (handleSendMessage_resume V1 sample_engine network_down 1
                 (handleSendMessage_start 0 hello))
   \<and> trim (str ''Hello'') \<noteq> []
   \<and> messages (handleSendMessage_start 2
        ((handleSendMessage_resume V1 sample_engine network_down 1
            (handleSendMessage_start 0 hello))\<lparr>input := str ''Hello''\<rparr>))
      = messages (handleSendMessage_resume V1 sample_engine network_down 1
                   (handleSendMessage_start 0 hello))
        @ [\<lparr>text' = JStr (str ''Hello''), sender = User, error = False, id' = 2\<rparr>]"
proof -
  have "trim (str ''Hello'') \<noteq> []"
    by (simp add: trim_Hello) (simp add: str_def)
  then show ?thesis
    using finally_resets_isTyping [of V1 sample_engine network_down 1
        "handleSendMessage_start 0 hello" "str ''Hello''" 2]
    by simp
qed

section \<open>C10: the text stored by the second variant\<close>

text \<open>
  C10: in the second variant, when the message appended by a turn is not flagged as an
  error, its text is a string with no asterisk and no three line feeds in a row, and
  it neither starts nor ends with white space.
\<close>

theorem stored_text_is_clean:
  assumes "\<not> error (last (messages (handleSendMessage_resume V2 rt fr now s)))"
  shows "\<exists>t. messages (handleSendMessage_resume V2 rt fr now s)
               = messages s @ [\<lparr>text' = JStr t, sender = Ai, error = False, id' = now + 1\<rparr>]
             \<and> ASTERISK \<notin> set t
             \<and> \<not> sublist [NEWLINE, NEWLINE, NEWLINE] t
             \<and> (t = [] \<or> (\<not> is_space (hd t) \<and> \<not> is_space (last t)))"
proof (cases "aiResponseText V2 rt fr")
  case (Inl e)
  with assms show ?thesis by (simp add: resume_after_throw)
next
  case (Inr v)
  from aiResponseText_V2_string [OF Inr]
  consider "v = JStr fallback_text" | raw where "v = JStr (cleanup raw)" by blast
  then show ?thesis
  proof cases
    case 1
    with Inr show ?thesis
      by (simp add: resume_after_string fallback_text_clean)
  next
    case 2
    with Inr show ?thesis
      using cleanup_trimmed [of raw]
      by (simp add: resume_after_string cleanup_no_asterisk cleanup_no_triple_newline)
  qed
qed

theorem stored_text_is_clean_witness:
  "\<not> error (last (messages (handleSendMessage_resume V2 sample_engine formatted_reply 1
                             (handleSendMessage_start 0 hello))))
   \<and> messages (handleSendMessage_resume V2 sample_engine formatted_reply 1
                 (handleSendMessage_start 0 hello))
       = [\<lparr>text' = JStr (str ''Hello''), sender = User, error = False, id' = 0\<rparr>,
          \<lparr>text' = JStr (str ''Hi there\<newline>\<newline>Bye''), sender = Ai, error = False,
            id' = 2\<rparr>]"
proof -
  have m: "messages (handleSendMessage_start 0 hello)
      = [\<lparr>text' = JStr (str ''Hello''), sender = User, error = False, id' = 0\<rparr>]"
    by (simp add: handleSendMessage_start_def hello_def trim_Hello Let_def) (simp add: str_def)
  have c: "cleanup (str ''- **Hi** there\<newline>\<newline>\<newline>\<newline>Bye  '')
      = str ''Hi there\<newline>\<newline>Bye''"
    by (simp add: cleanup_def remove_all_def line_marker_def trim_def is_space_def
        is_line_terminator_def is_digit_def str_def)
  have "aiResponseText V2 sample_engine formatted_reply
      = Inr (JStr (str ''Hi there\<newline>\<newline>Bye''))"
    by (simp add: property_names_differ aiResponseText_def formatted_reply_def and_then_def
        has_generated_text_def call_cleanup_def c)
  then have r: "messages (handleSendMessage_resume V2 sample_engine formatted_reply 1
                 (handleSendMessage_start 0 hello))
       = [\<lparr>text' = JStr (str ''Hello''), sender = User, error = False, id' = 0\<rparr>,
          \<lparr>text' = JStr (str ''Hi there\<newline>\<newline>Bye''), sender = Ai, error = False,
            id' = 2\<rparr>]"
    by (simp add: resume_after_string m)
  then have e: "\<not> error (last (messages (handleSendMessage_resume V2 sample_engine
      formatted_reply 1 (handleSendMessage_start 0 hello))))"
    by simp
  show ?thesis
    using r e stored_text_is_clean [OF e]
    by simp
qed

end
